theory Spec2Isabelle
  imports Complex_Main
begin

section \<open>MicroCraft (full variant): a shallow embedding of the simulation core\<close>

text \<open>
  The development follows \<^verbatim>\<open>full/core/entities.py\<close>, \<^verbatim>\<open>full/core/world.py\<close>,
  \<^verbatim>\<open>full/core/systems.py\<close>, \<^verbatim>\<open>full/core/selection.py\<close> and \<^verbatim>\<open>full/main.py\<close>.
  Python floats are modelled by exact reals: every property below depends only on
  comparisons and on which branch is taken, never on rounding. Python exceptions are
  values of \<open>py_error + 'a\<close>.
\<close>

datatype py_error = KeyError | IndexError | ValueError | ZeroDivisionError

text \<open>Python's \<^verbatim>\<open>int(x)\<close> on a float truncates toward zero.\<close>

definition py_int :: "real \<Rightarrow> int" where
  "py_int r = (if 0 \<le> r then \<lfloor>r\<rfloor> else \<lceil>r\<rceil>)"

text \<open>Python's \<^verbatim>\<open>range(a, b)\<close> over integers.\<close>

definition py_range :: "int \<Rightarrow> int \<Rightarrow> int list" where
  "py_range a b = [a..b - 1]"

subsection \<open>Entities (\<^verbatim>\<open>entities.py\<close>)\<close>

text \<open>
  The class hierarchy Entity / Unit / Worker, Soldier / Building / Base, Barracks is
  flattened into one record with a \<open>kind\<close> tag (the class name, as \<^verbatim>\<open>Entity.kind\<close>
  returns it). A field that a class does not have is never read for that kind;
  \<^verbatim>\<open>isinstance\<close> and \<^verbatim>\<open>hasattr\<close> tests become tests on the tag.
\<close>

datatype kind = Worker | Soldier | Base | Barracks

record entity =
  ent_id :: int
  kind :: kind
  team :: int
  pos_x :: real
  pos_y :: real
  hp :: int
  max_hp :: int
  alive :: bool
  visible_to :: "int set"
  speed :: real
  vision :: int
  destination :: "(real \<times> real) option"
  path :: "(real \<times> real) list"
  target :: "int option"
  angle :: real
  carrying :: int
  carry_capacity :: int
  gather_target :: "int option"
  build_target :: "(string \<times> real \<times> real) option"
  build_progress :: real
  state :: string
  waiting_for_minerals :: bool
  damage :: int
  attack_range :: real
  attack_cooldown :: real
  cooldown_remaining :: real
  production_queue :: "string list"
  production_progress :: real
  rally_point :: "(real \<times> real) option"
  build_time :: real

definition is_unit :: "entity \<Rightarrow> bool" where
  "is_unit e = (kind e = Worker \<or> kind e = Soldier)"

definition is_building :: "entity \<Rightarrow> bool" where
  "is_building e = (kind e = Base \<or> kind e = Barracks)"

definition pos :: "entity \<Rightarrow> real \<times> real" where
  "pos e = (pos_x e, pos_y e)"

definition take_damage :: "entity \<Rightarrow> int \<Rightarrow> entity" where
  "take_damage e amount =
     (let e1 = e\<lparr>hp := hp e - amount\<rparr>
      in if hp e1 \<le> 0 then e1\<lparr>hp := 0, alive := False\<rparr> else e1)"

definition MAX_QUEUE_SIZE :: nat where
  "MAX_QUEUE_SIZE = 5"

definition current_production :: "entity \<Rightarrow> string option" where
  "current_production b = (case production_queue b of [] \<Rightarrow> None | u # _ \<Rightarrow> Some u)"

definition queue_production :: "entity \<Rightarrow> string \<Rightarrow> entity \<times> bool" where
  "queue_production b unit_type =
     (if length (production_queue b) < MAX_QUEUE_SIZE
      then (b\<lparr>production_queue := production_queue b @ [unit_type]\<rparr>, True)
      else (b, False))"

definition complete_production :: "entity \<Rightarrow> entity \<times> string option" where
  "complete_production b =
     (case production_queue b of
        [] \<Rightarrow> (b, None)
      | unit_type # rest \<Rightarrow> (b\<lparr>production_queue := rest, production_progress := 0\<rparr>, Some unit_type))"

text \<open>\<^verbatim>\<open>Base.start_production\<close> and \<^verbatim>\<open>Barracks.start_production\<close>.\<close>

definition start_production :: "entity \<Rightarrow> entity \<times> bool" where
  "start_production b =
     (if kind b = Base then queue_production b ''Worker'' else queue_production b ''Soldier'')"

text \<open>
  The operations of the program that write a building's queue: \<^verbatim>\<open>queue_production\<close>
  (also through \<^verbatim>\<open>start_production\<close>) and \<^verbatim>\<open>complete_production\<close>.
\<close>

datatype queue_op = QueueProduction string | StartProduction | CompleteProduction

fun apply_queue_op :: "entity \<Rightarrow> queue_op \<Rightarrow> entity" where
  "apply_queue_op b (QueueProduction u) = fst (queue_production b u)"
| "apply_queue_op b StartProduction = fst (start_production b)"
| "apply_queue_op b CompleteProduction = fst (complete_production b)"

fun apply_queue_ops :: "entity \<Rightarrow> queue_op list \<Rightarrow> entity" where
  "apply_queue_ops b [] = b"
| "apply_queue_ops b (opn # ops) = apply_queue_ops (apply_queue_op b opn) ops"

subsection \<open>Stat tables\<close>

text \<open>
  \<^verbatim>\<open>UNIT_STATS\<close> and \<^verbatim>\<open>BUILDING_STATS\<close> are read from \<^verbatim>\<open>data/units.json\<close> and
  \<^verbatim>\<open>data/buildings.json\<close>, which are not part of the sources; the tables are a
  parameter of every function that reads them.
\<close>

record unit_stat =
  st_hp :: int
  st_speed :: real
  st_vision :: int
  st_cost :: int
  st_build_time :: real
  st_carry_capacity :: int
  st_damage :: int
  st_range :: real
  st_cooldown :: real

record building_stat =
  bst_hp :: int
  bst_vision :: int
  bst_cost :: int
  bst_build_time :: real

record stats =
  UNIT_STATS :: "string \<rightharpoonup> unit_stat"
  BUILDING_STATS :: "string \<rightharpoonup> building_stat"

text \<open>The constructors \<^verbatim>\<open>Entity.__init__\<close> ... \<^verbatim>\<open>Barracks.__init__\<close>, field by field.\<close>

definition new_entity :: "kind \<Rightarrow> int \<Rightarrow> int \<Rightarrow> real \<times> real \<Rightarrow> int \<Rightarrow> entity" where
  "new_entity k i t p h =
     \<lparr> ent_id = i, kind = k, team = t, pos_x = fst p, pos_y = snd p, hp = h, max_hp = h,
       alive = True, visible_to = {}, speed = 0, vision = 0, destination = None, path = [],
       target = None, angle = 0, carrying = 0, carry_capacity = 0, gather_target = None,
       build_target = None, build_progress = 0, state = ''idle'',
       waiting_for_minerals = False, damage = 0, attack_range = 0, attack_cooldown = 0,
       cooldown_remaining = 0, production_queue = [], production_progress = 0,
       rally_point = None, build_time = 0 \<rparr>"

definition create_entity :: "stats \<Rightarrow> string \<Rightarrow> int \<Rightarrow> int \<Rightarrow> real \<times> real \<Rightarrow> py_error + entity" where
  "create_entity cfg knd i t p =
     (if knd = ''Worker'' then
        (case UNIT_STATS cfg ''Worker'' of None \<Rightarrow> Inl KeyError
         | Some s \<Rightarrow> Inr ((new_entity Worker i t p (st_hp s))
             \<lparr>speed := st_speed s, vision := st_vision s, carry_capacity := st_carry_capacity s\<rparr>))
      else if knd = ''Soldier'' then
        (case UNIT_STATS cfg ''Soldier'' of None \<Rightarrow> Inl KeyError
         | Some s \<Rightarrow> Inr ((new_entity Soldier i t p (st_hp s))
             \<lparr>speed := st_speed s, vision := st_vision s, damage := st_damage s,
              attack_range := st_range s, attack_cooldown := st_cooldown s\<rparr>))
      else if knd = ''Base'' then
        (case (BUILDING_STATS cfg ''Base'', UNIT_STATS cfg ''Worker'') of
           (Some s, Some u) \<Rightarrow> Inr ((new_entity Base i t p (bst_hp s))
             \<lparr>vision := bst_vision s, build_time := st_build_time u\<rparr>)
         | _ \<Rightarrow> Inl KeyError)
      else if knd = ''Barracks'' then
        (case (BUILDING_STATS cfg ''Barracks'', UNIT_STATS cfg ''Soldier'') of
           (Some s, Some u) \<Rightarrow> Inr ((new_entity Barracks i t p (bst_hp s))
             \<lparr>vision := bst_vision s, build_time := st_build_time u\<rparr>)
         | _ \<Rightarrow> Inl KeyError)
      else Inl ValueError)"

subsection \<open>Fog of war (\<^verbatim>\<open>world.py\<close>, class FogOfWar)\<close>

text \<open>The three cell values \<^verbatim>\<open>HIDDEN = 0\<close>, \<^verbatim>\<open>EXPLORED = 1\<close>, \<^verbatim>\<open>VISIBLE = 2\<close>.\<close>

datatype visibility = HIDDEN | EXPLORED | VISIBLE

record fog_of_war =
  fog_width :: int
  fog_height :: int
  grid :: "visibility list list"

definition FogOfWar :: "int \<Rightarrow> int \<Rightarrow> fog_of_war" where
  "FogOfWar w h = \<lparr> fog_width = w, fog_height = h,
                    grid = replicate (nat h) (replicate (nat w) HIDDEN) \<rparr>"

text \<open>
  \<^verbatim>\<open>grid[y][x]\<close> read and written. The indices the update uses are always inside a
  grid of the constructor's shape (\<open>fog_shape\<close>), where Python raises no IndexError.
\<close>

definition get_cell :: "visibility list list \<Rightarrow> int \<Rightarrow> int \<Rightarrow> visibility" where
  "get_cell g x y = g ! nat y ! nat x"

definition set_cell :: "visibility list list \<Rightarrow> int \<Rightarrow> int \<Rightarrow> visibility \<Rightarrow> visibility list list" where
  "set_cell g x y v = g[nat y := (g ! nat y)[nat x := v]]"

definition fog_shape :: "fog_of_war \<Rightarrow> bool" where
  "fog_shape f = (0 \<le> fog_width f \<and> 0 \<le> fog_height f \<and>
                  length (grid f) = nat (fog_height f) \<and>
                  list_all (\<lambda>row. length row = nat (fog_width f)) (grid f))"

text \<open>First loop of \<^verbatim>\<open>update_visibility\<close>: demote all VISIBLE to EXPLORED.\<close>

definition demote_cell :: "int \<Rightarrow> int \<Rightarrow> visibility list list \<Rightarrow> visibility list list" where
  "demote_cell y x g = (if get_cell g x y = VISIBLE then set_cell g x y EXPLORED else g)"

definition demote_all :: "fog_of_war \<Rightarrow> visibility list list" where
  "demote_all f =
     fold (\<lambda>y g. fold (demote_cell y) (py_range 0 (fog_width f)) g)
          (py_range 0 (fog_height f)) (grid f)"

text \<open>
  Second loop: the body for one offset \<open>(dx, dy)\<close> around the entity's tile
  \<open>(cx, cy)\<close>; the state is the grid and the set of newly revealed tiles.
\<close>

definition reveal_cell ::
  "fog_of_war \<Rightarrow> int \<Rightarrow> int \<Rightarrow> int \<Rightarrow> int \<Rightarrow> int \<Rightarrow>
   visibility list list \<times> (int \<times> int) set \<Rightarrow> visibility list list \<times> (int \<times> int) set" where
  "reveal_cell f vis cx cy dy dx s =
     (let (g, newly) = s in
      if dx * dx + dy * dy \<le> vis * vis then
        (let nx = cx + dx; ny = cy + dy in
         if 0 \<le> nx \<and> nx < fog_width f \<and> 0 \<le> ny \<and> ny < fog_height f then
           (if get_cell g nx ny \<noteq> VISIBLE then
              (set_cell g nx ny VISIBLE,
               if get_cell g nx ny = HIDDEN then insert (nx, ny) newly else newly)
            else (g, newly))
         else (g, newly))
      else (g, newly))"

definition reveal_entity ::
  "fog_of_war \<Rightarrow> entity \<Rightarrow> visibility list list \<times> (int \<times> int) set \<Rightarrow>
   visibility list list \<times> (int \<times> int) set" where
  "reveal_entity f e s =
     (if \<not> alive e then s
      else
        (let vis = vision e; cx = py_int (pos_x e); cy = py_int (pos_y e) in
         fold (\<lambda>dy s1. fold (reveal_cell f vis cx cy dy) (py_range (- vis) (vis + 1)) s1)
              (py_range (- vis) (vis + 1)) s))"

definition update_visibility :: "fog_of_war \<Rightarrow> entity list \<Rightarrow> fog_of_war \<times> (int \<times> int) set" where
  "update_visibility f ents =
     (let (g, newly) = fold (reveal_entity f) ents (demote_all f, {})
      in (f\<lparr>grid := g\<rparr>, newly))"

text \<open>Any number of fog updates in a row, each with its own list of entities.\<close>

fun update_visibility_many :: "fog_of_war \<Rightarrow> entity list list \<Rightarrow> fog_of_war" where
  "update_visibility_many f [] = f"
| "update_visibility_many f (ents # rest) =
     update_visibility_many (fst (update_visibility f ents)) rest"

subsection \<open>Events (\<^verbatim>\<open>events.py\<close>)\<close>

text \<open>The event dataclasses that the modelled systems publish, with their fields in order.\<close>

datatype event =
    SpawnEvent string int int "real \<times> real"
  | DeathEvent int string int "real \<times> real" "int option"
  | ResourceCollectedEvent int int int int
  | GatheringStartedEvent int int
  | ProductionStartedEvent int string int nat
  | ProductionCompletedEvent int string int int "real \<times> real"
  | BuildingPlacedEvent int string int "real \<times> real" int
  | CommandEvent int int
  | AttackEvent int int int int
  | MineDepletedEvent int int "real \<times> real"
  | BaseUnderAttackEvent int int int
  | BuildingConstructionStartEvent int int string "real \<times> real"
  | WorkerWaitingForMineralsEvent int int string int
  | UnitReadyEvent int string int string "string option"

subsection \<open>World (\<^verbatim>\<open>world.py\<close>)\<close>

record mineral_patch =
  patch_id :: int
  patch_x :: real
  patch_y :: real
  minerals :: int

definition patch_pos :: "mineral_patch \<Rightarrow> real \<times> real" where
  "patch_pos m = (patch_x m, patch_y m)"

definition depleted :: "mineral_patch \<Rightarrow> bool" where
  "depleted m = (minerals m \<le> 0)"

text \<open>
  GameMap. \<open>tiles\<close> is row-major, \<^verbatim>\<open>tiles[y][x]\<close>; \<^verbatim>\<open>load_map\<close> builds \<open>height\<close> rows
  of \<open>width\<close> cells, so the bounds test of \<^verbatim>\<open>is_walkable\<close> keeps every read inside.
\<close>

record game_map =
  width :: int
  height :: int
  tiles :: "int list list"

definition is_walkable :: "game_map \<Rightarrow> int \<Rightarrow> int \<Rightarrow> bool" where
  "is_walkable m x y =
     (if 0 \<le> x \<and> x < width m \<and> 0 \<le> y \<and> y < height m
      then tiles m ! nat y ! nat x = 0 else False)"

text \<open>\<^verbatim>\<open>is_buildable\<close>: the loops return False at the first unwalkable tile.\<close>

definition is_buildable :: "game_map \<Rightarrow> int \<Rightarrow> int \<Rightarrow> int \<Rightarrow> bool" where
  "is_buildable m x y sz =
     list_all (\<lambda>dy. list_all (\<lambda>dx. is_walkable m (x + dx) (y + dy)) (py_range 0 sz))
              (py_range 0 sz)"

text \<open>
  The world. \<open>entities\<close> and \<open>world_minerals\<close> are the dicts \<^verbatim>\<open>entities\<close> and
  \<^verbatim>\<open>minerals\<close> in insertion order, each value under its own id as key. A worker's
  \<^verbatim>\<open>gather_target\<close> is a reference to a patch of \<open>world_minerals\<close>, modelled by the
  patch's id. \<open>published\<close> is the global event bus: the events published so far, in
  order, each with the value of \<open>game_time\<close> when it was published.
\<close>

record world =
  entities :: "entity list"
  world_minerals :: "mineral_patch list"
  next_id :: int
  game_map :: "game_map option"
  team_minerals :: "int \<rightharpoonup> int"
  fog :: "int \<rightharpoonup> fog_of_war"
  game_over :: bool
  game_over_time :: "real option"
  winner :: "int option"
  game_time :: real
  published :: "(real \<times> event) list"

definition publish :: "world \<Rightarrow> event \<Rightarrow> world" where
  "publish w ev = w\<lparr>published := published w @ [(game_time w, ev)]\<rparr>"

definition get_entity :: "world \<Rightarrow> int \<Rightarrow> entity option" where
  "get_entity w i = find (\<lambda>e. ent_id e = i) (entities w)"

text \<open>
  A write to the fields of the entity object with id \<open>i\<close>: Python mutates the object
  in place, the model rewrites it in the table.
\<close>

definition upd :: "world \<Rightarrow> int \<Rightarrow> (entity \<Rightarrow> entity) \<Rightarrow> world" where
  "upd w i f = w\<lparr>entities := map (\<lambda>e. if ent_id e = i then f e else e) (entities w)\<rparr>"

definition get_patch :: "world \<Rightarrow> int \<Rightarrow> mineral_patch option" where
  "get_patch w i = find (\<lambda>m. patch_id m = i) (world_minerals w)"

definition upd_patch :: "world \<Rightarrow> int \<Rightarrow> (mineral_patch \<Rightarrow> mineral_patch) \<Rightarrow> world" where
  "upd_patch w i f =
     w\<lparr>world_minerals := map (\<lambda>m. if patch_id m = i then f m else m) (world_minerals w)\<rparr>"

text \<open>\<^verbatim>\<open>self.entities[entity.id] = entity\<close>: replace under an existing key, else append.\<close>

definition dict_set :: "entity list \<Rightarrow> entity \<Rightarrow> entity list" where
  "dict_set es e =
     (if \<exists>e' \<in> set es. ent_id e' = ent_id e
      then map (\<lambda>e'. if ent_id e' = ent_id e then e else e') es
      else es @ [e])"

definition spawn_entity ::
  "stats \<Rightarrow> world \<Rightarrow> string \<Rightarrow> int \<Rightarrow> real \<times> real \<Rightarrow> py_error + (world \<times> entity)" where
  "spawn_entity cfg w knd t p =
     (case create_entity cfg knd (next_id w) t p of
        Inl err \<Rightarrow> Inl err
      | Inr e \<Rightarrow>
          Inr (publish (w\<lparr>entities := dict_set (entities w) e, next_id := next_id w + 1\<rparr>)
                       (SpawnEvent knd (ent_id e) t p), e))"

definition get_base :: "world \<Rightarrow> int \<Rightarrow> entity option" where
  "get_base w t = find (\<lambda>e. kind e = Base \<and> team e = t \<and> alive e) (entities w)"

definition get_entities_by_team :: "world \<Rightarrow> int \<Rightarrow> entity list" where
  "get_entities_by_team w t = filter (\<lambda>e. team e = t \<and> alive e) (entities w)"

definition get_nearest_mineral :: "world \<Rightarrow> real \<Rightarrow> real \<Rightarrow> mineral_patch option" where
  "get_nearest_mineral w x y =
     fst (fold (\<lambda>m (nearest, nearest_dist).
                  if depleted m then (nearest, nearest_dist)
                  else
                    (let dx = patch_x m - x; dy = patch_y m - y; dist = dx * dx + dy * dy in
                     if (case nearest_dist of None \<Rightarrow> True | Some d \<Rightarrow> dist < d)
                     then (Some m, Some dist) else (nearest, nearest_dist)))
               (world_minerals w) (None, None))"

definition get_entity_at :: "world \<Rightarrow> real \<Rightarrow> real \<Rightarrow> real \<Rightarrow> entity option" where
  "get_entity_at w x y radius =
     find (\<lambda>e. alive e \<and>
               (let dx = pos_x e - x; dy = pos_y e - y in dx * dx + dy * dy \<le> radius * radius))
          (entities w)"

definition get_enemies_in_range :: "world \<Rightarrow> entity \<Rightarrow> real \<Rightarrow> entity list" where
  "get_enemies_in_range w e rng =
     filter (\<lambda>other. \<not> (\<not> alive other \<or> team other = team e) \<and>
               (let dx = pos_x other - pos_x e; dy = pos_y other - pos_y e
                in dx * dx + dy * dy \<le> rng * rng))
            (entities w)"

text \<open>\<^verbatim>\<open>update_fog_of_war\<close>: teams 1 and 2 in turn; a missing grid is a KeyError.\<close>

definition update_fog_team :: "world \<Rightarrow> int \<Rightarrow> py_error + world" where
  "update_fog_team w t =
     (case fog w t of
        None \<Rightarrow> Inl KeyError
      | Some f \<Rightarrow> Inr (w\<lparr>fog := (fog w)(t \<mapsto> fst (update_visibility f (get_entities_by_team w t)))\<rparr>))"

definition update_fog_of_war :: "world \<Rightarrow> py_error + world" where
  "update_fog_of_war w =
     (case update_fog_team w 1 of Inl err \<Rightarrow> Inl err | Inr w1 \<Rightarrow> update_fog_team w1 2)"

subsection \<open>Selection (\<^verbatim>\<open>selection.py\<close>)\<close>

text \<open>
  \<open>selected_ids\<close> is a Python set; the list gives its elements in the set's iteration
  order, which \<^verbatim>\<open>next(iter(...))\<close> in \<^verbatim>\<open>main.py\<close> depends on.
\<close>

record selection_manager =
  selected_ids :: "int list"
  drag_start :: "(real \<times> real) option"
  drag_current :: "(real \<times> real) option"
  is_dragging :: bool






definition select_single :: "selection_manager \<Rightarrow> int \<Rightarrow> selection_manager" where
  "select_single sm i = sm\<lparr>selected_ids := [i]\<rparr>"

definition has_selection :: "selection_manager \<Rightarrow> bool" where
  "has_selection sm = (length (selected_ids sm) > 0)"



subsection \<open>Click handling (\<^verbatim>\<open>main.py\<close>, Game.handle_click)\<close>

record game =
  world :: world
  selection :: selection_manager
  build_mode :: bool
  build_type :: "string option"

text \<open>\<^verbatim>\<open>first_selected\<close>: the entity under the first id of the selection, if any.\<close>

definition first_selected :: "game \<Rightarrow> entity option" where
  "first_selected g =
     (case selected_ids (selection g) of [] \<Rightarrow> None | first_id # _ \<Rightarrow> get_entity (world g) first_id)"

text \<open>Truth value of \<^verbatim>\<open>self.build_type\<close>: None and the empty string are false.\<close>

definition build_type_set :: "game \<Rightarrow> bool" where
  "build_type_set g = (case build_type g of None \<Rightarrow> False | Some s \<Rightarrow> s \<noteq> [])"

text \<open>The nearest non-depleted patch strictly inside squared distance 2.25 of the click.\<close>

definition best_mineral :: "world \<Rightarrow> real \<Rightarrow> real \<Rightarrow> mineral_patch option" where
  "best_mineral w wx wy =
     fst (fold (\<lambda>m (best, best_dist_sq).
                  if \<not> depleted m then
                    (let dx = patch_x m - wx; dy = patch_y m - wy; dist_sq = dx * dx + dy * dy in
                     if dist_sq < best_dist_sq then (Some m, dist_sq) else (best, best_dist_sq))
                  else (best, best_dist_sq))
               (world_minerals w) (None, 2.25))"

definition move_order :: "real \<times> real \<Rightarrow> entity \<Rightarrow> entity" where
  "move_order d u =
     (let u1 = u\<lparr>destination := Some d, path := [], target := None\<rparr>
      in if kind u1 = Worker then u1\<lparr>gather_target := None, state := ''idle''\<rparr> else u1)"


text \<open>
  The part of \<^verbatim>\<open>handle_click\<close> after the selection tests: orders to the selected
  units. \<open>dests\<close> stands for the result of \<^verbatim>\<open>calculate_group_destinations\<close>, which
  draws random offsets. None of these branches writes the selection.
\<close>

definition selected_units :: "game \<Rightarrow> entity list" where
  "selected_units g =
     concat (map (\<lambda>eid. case get_entity (world g) eid of
                          None \<Rightarrow> []
                        | Some e \<Rightarrow> if alive e \<and> is_unit e then [e] else [])
                 (selected_ids (selection g)))"

definition gather_order :: "world \<Rightarrow> entity \<Rightarrow> mineral_patch \<Rightarrow> world" where
  "gather_order w worker m =
     publish (upd w (ent_id worker)
                (\<lambda>e. e\<lparr>gather_target := Some (patch_id m), state := ''moving_to_mineral'',
                       destination := Some (patch_pos m), target := None\<rparr>))
             (CommandEvent (ent_id worker) 1)"

definition attack_order :: "world \<Rightarrow> entity list \<Rightarrow> entity \<Rightarrow> world" where
  "attack_order w units c =
     publish (fold (\<lambda>u w1. upd w1 (ent_id u)
                      (\<lambda>e. (if kind e = Soldier then e\<lparr>target := Some (ent_id c)\<rparr> else e)
                             \<lparr>destination := Some (pos_x c, pos_y c)\<rparr>))
                   units w)
             (CommandEvent (ent_id (hd units)) 1)"

definition terrain_order ::
  "(int \<rightharpoonup> real \<times> real) \<Rightarrow> world \<Rightarrow> entity list \<Rightarrow> real \<Rightarrow> real \<Rightarrow> world" where
  "terrain_order dests w units wx wy =
     (if length units = 1 then
        publish (upd w (ent_id (hd units)) (move_order (wx, wy)))
                (CommandEvent (ent_id (hd units)) 1)
      else
        publish (fold (\<lambda>u w1. if alive u \<and> dests (ent_id u) \<noteq> None
                               then upd w1 (ent_id u) (move_order (the (dests (ent_id u))))
                               else w1)
                      units w)
                (CommandEvent (ent_id (hd units)) 1))"

definition issue_orders ::
  "(int \<rightharpoonup> real \<times> real) \<Rightarrow> game \<Rightarrow> entity option \<Rightarrow> real \<Rightarrow> real \<Rightarrow> game" where
  "issue_orders dests g clicked_entity wx wy =
     (let w = world g; units = selected_units g in
      if units = [] then g
      else if length units = 1 \<and> kind (hd units) = Worker \<and> best_mineral w wx wy \<noteq> None then
        g\<lparr>world := gather_order w (hd units) (the (best_mineral w wx wy))\<rparr>
      else if clicked_entity \<noteq> None \<and> team (the clicked_entity) \<noteq> 1 then
        g\<lparr>world := attack_order w units (the clicked_entity)\<rparr>
      else g\<lparr>world := terrain_order dests w units wx wy\<rparr>)"

definition handle_click :: "(int \<rightharpoonup> real \<times> real) \<Rightarrow> game \<Rightarrow> real \<Rightarrow> real \<Rightarrow> game" where
  "handle_click dests g wx wy =
     (let clicked_entity = get_entity_at (world g) wx wy 0.5 in
      if build_mode g \<and> build_type_set g \<and> first_selected g \<noteq> None then
        (if kind (the (first_selected g)) = Worker then
           g\<lparr>world := publish
                (upd (world g) (ent_id (the (first_selected g)))
                   (\<lambda>e. e\<lparr>build_target := Some (the (build_type g), wx, wy)\<rparr>))
                (CommandEvent (ent_id (the (first_selected g))) 1),
             build_mode := False, build_type := None\<rparr>
         else g)
      else if clicked_entity \<noteq> None \<and> team (the clicked_entity) = 1 then
        g\<lparr>selection := select_single (selection g) (ent_id (the clicked_entity))\<rparr>
      else if \<not> has_selection (selection g) then g
      else issue_orders dests g clicked_entity wx wy)"


text \<open>\<^verbatim>\<open>World.__init__\<close> and \<^verbatim>\<open>SelectionManager.__init__\<close>.\<close>

definition World_init :: world where
  "World_init =
     \<lparr> entities = [], world_minerals = [], next_id = 1, game_map = None,
       team_minerals = [1 \<mapsto> 100, 2 \<mapsto> 100], fog = Map.empty, game_over = False,
       game_over_time = None, winner = None, game_time = 0, published = [] \<rparr>"

definition SelectionManager_init :: selection_manager where
  "SelectionManager_init =
     \<lparr> selected_ids = [], drag_start = None, drag_current = None, is_dragging = False \<rparr>"


subsection \<open>Production system (\<^verbatim>\<open>systems.py\<close>, class ProductionSystem)\<close>

text \<open>A loop body that may raise, run over a list: the first error ends the loop.\<close>

fun fold_err :: "('a \<Rightarrow> 's \<Rightarrow> py_error + 's) \<Rightarrow> 'a list \<Rightarrow> 's \<Rightarrow> py_error + 's" where
  "fold_err f [] s = Inr s"
| "fold_err f (a # as) s = (case f a s of Inl err \<Rightarrow> Inl err | Inr s1 \<Rightarrow> fold_err f as s1)"

text \<open>
  A cooldown dict counted down by \<open>dt\<close>, entries at or below zero deleted (the loops
  at the head of \<^verbatim>\<open>ProductionSystem.update\<close> and \<^verbatim>\<open>BuildingPlacementSystem.update\<close>).
\<close>

definition tick_cooldowns :: "real \<Rightarrow> (int \<rightharpoonup> real) \<Rightarrow> (int \<rightharpoonup> real)" where
  "tick_cooldowns dt m =
     (\<lambda>k. case m k of None \<Rightarrow> None | Some v \<Rightarrow> if v - dt \<le> 0 then None else Some (v - dt))"

text \<open>
  The random draws of one completed production: \<^verbatim>\<open>random.uniform(-1, 1)\<close> for the
  spawn offset, \<^verbatim>\<open>random.choice(WORKER_NAMES)\<close> and \<^verbatim>\<open>random.choice(SOLDIER_RANKS)\<close>.
  They are a parameter, given per building id.
\<close>

record spawn_draw =
  spawn_offset :: real
  unit_name :: string
  unit_rank :: string

text \<open>Lines 573 to 583: rally point, and workers sent to the nearest patch.\<close>

definition after_spawn :: "world \<Rightarrow> entity \<Rightarrow> entity \<Rightarrow> world" where
  "after_spawn w b new_unit =
     (let w1 = (case rally_point b of
                  None \<Rightarrow> w
                | Some r \<Rightarrow> upd w (ent_id new_unit) (\<lambda>e. e\<lparr>destination := Some r\<rparr>))
      in if kind new_unit = Worker then
           (case get_nearest_mineral w1 (pos_x new_unit) (pos_y new_unit) of
              None \<Rightarrow> w1
            | Some m \<Rightarrow> upd w1 (ent_id new_unit)
                (\<lambda>e. e\<lparr>gather_target := Some (patch_id m), state := ''moving_to_mineral'',
                       destination := Some (patch_pos m)\<rparr>))
         else w1)"

text \<open>Lines 554 to 571: the UnitReadyEvent, for workers and soldiers only.\<close>

definition unit_ready :: "world \<Rightarrow> spawn_draw \<Rightarrow> string \<Rightarrow> entity \<Rightarrow> entity \<Rightarrow> world" where
  "unit_ready w d completed_type b new_unit =
     (if completed_type = ''Worker'' then
        publish w (UnitReadyEvent (ent_id new_unit) ''Worker'' (team b) (unit_name d) None)
      else if completed_type = ''Soldier'' then
        publish w (UnitReadyEvent (ent_id new_unit) ''Soldier'' (team b) (unit_name d)
                     (Some (unit_rank d)))
      else w)"

text \<open>Lines 532 to 583: the item is complete; \<open>b\<close> is the building before the pop.\<close>

definition complete_item :: "stats \<Rightarrow> spawn_draw \<Rightarrow> world \<Rightarrow> entity \<Rightarrow> py_error + world" where
  "complete_item cfg d w b =
     (case complete_production b of
        (_, None) \<Rightarrow> Inr w
      | (b1, Some completed_type) \<Rightarrow>
          (let w1 = upd w (ent_id b) (\<lambda>e. fst (complete_production e));
               spawn_x = pos_x b + spawn_offset d;
               spawn_y = pos_y b + 2
           in case spawn_entity cfg w1 completed_type (team b) (spawn_x, spawn_y) of
                Inl err \<Rightarrow> Inl err
              | Inr (w2, new_unit) \<Rightarrow>
                  Inr (after_spawn
                         (unit_ready
                            (publish w2 (ProductionCompletedEvent (ent_id b) completed_type
                                           (ent_id new_unit) (team b) (pos new_unit)))
                            d completed_type b new_unit)
                         b new_unit)))"

text \<open>Lines 529 to 532: progress advances; a build time of zero is a ZeroDivisionError.\<close>

definition progress_item :: "stats \<Rightarrow> real \<Rightarrow> spawn_draw \<Rightarrow> world \<Rightarrow> int \<Rightarrow> py_error + world" where
  "progress_item cfg dt d w i =
     (case get_entity w i of
        None \<Rightarrow> Inr w
      | Some b \<Rightarrow>
          if build_time b = 0 then Inl ZeroDivisionError
          else
            (let w1 = upd w i (\<lambda>e. e\<lparr>production_progress := production_progress e + dt / build_time e\<rparr>)
             in case get_entity w1 i of
                  None \<Rightarrow> Inr w1
                | Some b1 \<Rightarrow>
                    if production_progress b1 \<ge> 1 then complete_item cfg d w1 b1 else Inr w1))"

text \<open>The loop body of \<^verbatim>\<open>ProductionSystem.update\<close> for the entity with id \<open>i\<close>.\<close>

definition production_entity ::
  "stats \<Rightarrow> real \<Rightarrow> (int \<Rightarrow> spawn_draw) \<Rightarrow> int \<Rightarrow> world \<Rightarrow> py_error + world" where
  "production_entity cfg dt draws i w =
     (case get_entity w i of
        None \<Rightarrow> Inr w
      | Some b \<Rightarrow>
          if \<not> is_building b \<or> \<not> alive b then Inr w
          else if production_queue b = [] then
            Inr (upd w i (\<lambda>e. e\<lparr>waiting_for_minerals := False\<rparr>))
          else
            (case UNIT_STATS cfg (hd (production_queue b)) of
               None \<Rightarrow> Inl KeyError
             | Some st \<Rightarrow>
                 if production_progress b = 0 then
                   (case team_minerals w (team b) of
                      None \<Rightarrow> Inl KeyError
                    | Some m \<Rightarrow>
                        if m < st_cost st then
                          Inr (upd w i (\<lambda>e. e\<lparr>waiting_for_minerals := True\<rparr>))
                        else
                          progress_item cfg dt (draws i)
                            (publish
                               ((upd w i (\<lambda>e. e\<lparr>waiting_for_minerals := False\<rparr>))
                                  \<lparr>team_minerals := (team_minerals w)(team b \<mapsto> m - st_cost st)\<rparr>)
                               (ProductionStartedEvent (ent_id b) (hd (production_queue b)) (team b)
                                  (length (production_queue b))))
                            i)
                 else
                   progress_item cfg dt (draws i)
                     (upd w i (\<lambda>e. e\<lparr>waiting_for_minerals := False\<rparr>)) i))"

record production_system =
  ps_waiting_for_minerals :: "int \<rightharpoonup> real"

text \<open>
  \<^verbatim>\<open>ProductionSystem.update\<close>: the loop runs over a snapshot of the entity table, so
  units spawned during the loop are not visited.
\<close>

definition production_update ::
  "stats \<Rightarrow> real \<Rightarrow> (int \<Rightarrow> spawn_draw) \<Rightarrow> production_system \<times> world \<Rightarrow>
   py_error + (production_system \<times> world)" where
  "production_update cfg dt draws s =
     (let ps1 = (fst s)\<lparr>ps_waiting_for_minerals := tick_cooldowns dt (ps_waiting_for_minerals (fst s))\<rparr>
      in case fold_err (production_entity cfg dt draws) (map ent_id (entities (snd s))) (snd s) of
           Inl err \<Rightarrow> Inl err
         | Inr w1 \<Rightarrow> Inr (ps1, w1))"


text \<open>
  A stat table for worked examples. The data files are not part of the sources; the
  numbers follow the scenarios of the specification (a worker costs 50 and takes 8 s,
  a soldier costs 75 and deals 10 damage at range 2 every second, a barracks costs 150).
\<close>

definition demo_stats :: stats where
  "demo_stats =
     \<lparr> UNIT_STATS =
         [''Worker'' \<mapsto> \<lparr> st_hp = 50, st_speed = 3, st_vision = 6, st_cost = 50, st_build_time = 8,
                          st_carry_capacity = 8, st_damage = 0, st_range = 0, st_cooldown = 0 \<rparr>,
          ''Soldier'' \<mapsto> \<lparr> st_hp = 80, st_speed = 4, st_vision = 7, st_cost = 75, st_build_time = 12,
                           st_carry_capacity = 0, st_damage = 10, st_range = 2, st_cooldown = 1 \<rparr>],
       BUILDING_STATS =
         [''Base'' \<mapsto> \<lparr> bst_hp = 500, bst_vision = 8, bst_cost = 400, bst_build_time = 30 \<rparr>,
          ''Barracks'' \<mapsto> \<lparr> bst_hp = 300, bst_vision = 6, bst_cost = 150, bst_build_time = 15 \<rparr>] \<rparr>"

text \<open>A 3 by 3 map, grass everywhere but a rock on tile (1, 2).\<close>

definition rock_map :: game_map where
  "rock_map = \<lparr> width = 3, height = 3, tiles = [[0, 0, 0], [0, 0, 0], [0, 1, 0]] \<rparr>"


subsection \<open>Resource system (\<^verbatim>\<open>systems.py\<close>, class ResourceSystem)\<close>

record resource_system =
  gather_timers :: "int \<rightharpoonup> real"

definition GATHER_TIME :: real where
  "GATHER_TIME = 2"

definition GATHER_AMOUNT :: int where
  "GATHER_AMOUNT = 8"

text \<open>
  The patch object behind \<^verbatim>\<open>worker.gather_target\<close>. In Python the reference always
  leads to a patch; an id that is not in the table gives KeyError in the model.
\<close>

definition gather_patch :: "world \<Rightarrow> entity \<Rightarrow> py_error + mineral_patch option" where
  "gather_patch w e =
     (case gather_target e of
        None \<Rightarrow> Inr None
      | Some pid \<Rightarrow> (case get_patch w pid of None \<Rightarrow> Inl KeyError | Some m \<Rightarrow> Inr (Some m)))"

text \<open>State \<^verbatim>\<open>"idle"\<close> (lines 391 to 397).\<close>

definition worker_idle :: "world \<Rightarrow> entity \<Rightarrow> entity \<Rightarrow> mineral_patch option \<Rightarrow> world" where
  "worker_idle w base e p =
     (case p of
        Some m \<Rightarrow> upd w (ent_id e)
          (\<lambda>e. e\<lparr>state := ''moving_to_mineral'', destination := Some (patch_pos m)\<rparr>)
      | None \<Rightarrow>
          if carrying e > 0 then
            upd w (ent_id e) (\<lambda>e. e\<lparr>state := ''returning'', destination := Some (pos base)\<rparr>)
          else w)"

text \<open>State \<^verbatim>\<open>"moving_to_mineral"\<close> (lines 399 to 426).\<close>

definition worker_moving ::
  "resource_system \<Rightarrow> world \<Rightarrow> entity \<Rightarrow> mineral_patch option \<Rightarrow> resource_system \<times> world" where
  "worker_moving rs w e p =
     (case p of
        None \<Rightarrow> (rs, upd w (ent_id e) (\<lambda>e. e\<lparr>state := ''idle''\<rparr>))
      | Some m \<Rightarrow>
          if depleted m then
            (rs, publish
                   (upd w (ent_id e)
                      (\<lambda>e. e\<lparr>gather_target := None, destination := None, state := ''idle''\<rparr>))
                   (MineDepletedEvent (ent_id e) (team e) (patch_pos m)))
          else
            (let dx = patch_x m - pos_x e; dy = patch_y m - pos_y e in
             if dx * dx + dy * dy < 1.5 then
               (rs\<lparr>gather_timers := (gather_timers rs)(ent_id e \<mapsto> 0)\<rparr>,
                publish (upd w (ent_id e) (\<lambda>e. e\<lparr>state := ''gathering'', destination := None\<rparr>))
                        (GatheringStartedEvent (ent_id e) (team e)))
             else (rs, w)))"

text \<open>State \<^verbatim>\<open>"gathering"\<close> (lines 428 to 451).\<close>

definition worker_gathering ::
  "real \<Rightarrow> resource_system \<Rightarrow> world \<Rightarrow> entity \<Rightarrow> entity \<Rightarrow> mineral_patch option \<Rightarrow>
   resource_system \<times> world" where
  "worker_gathering dt rs w base e p =
     (case p of
        None \<Rightarrow> (rs, upd w (ent_id e) (\<lambda>e. e\<lparr>state := ''idle''\<rparr>))
      | Some m \<Rightarrow>
          if depleted m then
            (rs, publish
                   (upd w (ent_id e) (\<lambda>e. e\<lparr>gather_target := None, state := ''idle''\<rparr>))
                   (MineDepletedEvent (ent_id e) (team e) (patch_pos m)))
          else
            (let timer = (case gather_timers rs (ent_id e) of None \<Rightarrow> 0 | Some v \<Rightarrow> v) + dt;
                 rs1 = rs\<lparr>gather_timers := (gather_timers rs)(ent_id e \<mapsto> timer)\<rparr>
             in if timer \<ge> GATHER_TIME then
                  (let amount = min GATHER_AMOUNT (minerals m) in
                   (rs1, upd (upd_patch w (patch_id m) (\<lambda>m. m\<lparr>minerals := minerals m - amount\<rparr>))
                           (ent_id e)
                           (\<lambda>e. e\<lparr>carrying := amount, state := ''returning'',
                                  destination := Some (pos base)\<rparr>)))
                else (rs1, w)))"

text \<open>State \<^verbatim>\<open>"returning"\<close> (lines 453 to 482).\<close>

definition worker_returning ::
  "world \<Rightarrow> entity \<Rightarrow> entity \<Rightarrow> mineral_patch option \<Rightarrow> py_error + world" where
  "worker_returning w base e p =
     (let dx = pos_x base - pos_x e; dy = pos_y base - pos_y e in
      if dx * dx + dy * dy < 2 then
        (case team_minerals w (team e) of
           None \<Rightarrow> Inl KeyError
         | Some tot \<Rightarrow>
             (let w1 = publish (w\<lparr>team_minerals := (team_minerals w)(team e \<mapsto> tot + carrying e)\<rparr>)
                         (ResourceCollectedEvent (ent_id e) (team e) (carrying e) (tot + carrying e));
                  w2 = upd w1 (ent_id e) (\<lambda>e. e\<lparr>carrying := 0\<rparr>)
              in case p of
                   None \<Rightarrow> Inr (upd w2 (ent_id e) (\<lambda>e. e\<lparr>state := ''idle''\<rparr>))
                 | Some m \<Rightarrow>
                     if \<not> depleted m then
                       Inr (upd w2 (ent_id e)
                              (\<lambda>e. e\<lparr>state := ''moving_to_mineral'', destination := Some (patch_pos m)\<rparr>))
                     else
                       Inr (upd (publish (upd w2 (ent_id e) (\<lambda>e. e\<lparr>gather_target := None\<rparr>))
                                   (MineDepletedEvent (ent_id e) (team e) (patch_pos m)))
                              (ent_id e) (\<lambda>e. e\<lparr>state := ''idle''\<rparr>))))
      else Inr w)"

text \<open>
  \<^verbatim>\<open>update\<close>'s loop body with \<^verbatim>\<open>_process_worker\<close>, for the entity with id \<open>i\<close>:
  nothing happens without a living base of the worker's team.
\<close>

definition process_worker ::
  "real \<Rightarrow> int \<Rightarrow> resource_system \<times> world \<Rightarrow> py_error + (resource_system \<times> world)" where
  "process_worker dt i s =
     (let rs = fst s; w = snd s in
      case get_entity w i of
        None \<Rightarrow> Inr s
      | Some e \<Rightarrow>
          if kind e \<noteq> Worker \<or> \<not> alive e then Inr s
          else
            (case get_base w (team e) of
               None \<Rightarrow> Inr s
             | Some base \<Rightarrow>
                 (case gather_patch w e of
                    Inl err \<Rightarrow> Inl err
                  | Inr p \<Rightarrow>
                      if state e = ''idle'' then Inr (rs, worker_idle w base e p)
                      else if state e = ''moving_to_mineral'' then Inr (worker_moving rs w e p)
                      else if state e = ''gathering'' then Inr (worker_gathering dt rs w base e p)
                      else if state e = ''returning'' then
                        (case worker_returning w base e p of
                           Inl err \<Rightarrow> Inl err
                         | Inr w1 \<Rightarrow> Inr (rs, w1))
                      else Inr s)))"

definition resource_update ::
  "real \<Rightarrow> resource_system \<times> world \<Rightarrow> py_error + (resource_system \<times> world)" where
  "resource_update dt s = fold_err (process_worker dt) (map ent_id (entities (snd s))) s"


text \<open>
  A scene for worked examples: a base of team 1 at (0, 1), a worker of team 1 at
  (0, 0) on its way to patch 10 (1500 minerals), which lies at \<open>(px, 0)\<close>.
\<close>

definition gather_scene :: "real \<Rightarrow> world" where
  "gather_scene px =
     World_init\<lparr>entities :=
                  [new_entity Base 1 1 (0, 1) 500,
                   (new_entity Worker 2 1 (0, 0) 50)
                     \<lparr>state := ''moving_to_mineral'', gather_target := Some 10,
                      destination := Some (px, 0)\<rparr>],
                world_minerals := [\<lparr>patch_id = 10, patch_x = px, patch_y = 0, minerals = 1500\<rparr>],
                next_id := 11\<rparr>"


subsection \<open>Building placement (\<^verbatim>\<open>systems.py\<close>, class BuildingPlacementSystem)\<close>

record building_system =
  build_timers :: "int \<rightharpoonup> real"
  mineral_warning_cooldown :: "int \<rightharpoonup> real"

definition cancel_build :: "world \<Rightarrow> int \<Rightarrow> world" where
  "cancel_build w i = upd w i (\<lambda>e. e\<lparr>build_target := None, waiting_for_minerals := False\<rparr>)"

text \<open>Lines 669 to 677: another living entity within squared distance 2 of the site.\<close>

definition site_occupied :: "world \<Rightarrow> int \<Rightarrow> real \<Rightarrow> real \<Rightarrow> bool" where
  "site_occupied w i bx by =
     list_ex (\<lambda>other. alive other \<and> ent_id other \<noteq> i \<and>
                (let odx = pos_x other - bx; ody = pos_y other - by in odx * odx + ody * ody < 2))
             (entities w)"

text \<open>Lines 684 to 704: the timer advances; when it reaches the build time the cost
  is deducted (from the total \<open>m\<close> read at line 645) and the building is spawned.\<close>

definition progress_build ::
  "stats \<Rightarrow> real \<Rightarrow> building_system \<Rightarrow> world \<Rightarrow> entity \<Rightarrow> string \<Rightarrow> real \<Rightarrow> real \<Rightarrow>
   building_stat \<Rightarrow> int \<Rightarrow> py_error + (building_system \<times> world)" where
  "progress_build cfg dt bs w e bt bx by st m =
     (let timer = (case build_timers bs (ent_id e) of None \<Rightarrow> 0 | Some v \<Rightarrow> v) + dt;
          bs1 = bs\<lparr>build_timers := (build_timers bs)(ent_id e \<mapsto> timer)\<rparr>
      in if timer \<ge> bst_build_time st then
           (case spawn_entity cfg (w\<lparr>team_minerals := (team_minerals w)(team e \<mapsto> m - bst_cost st)\<rparr>)
                   bt (team e) (bx, by) of
              Inl err \<Rightarrow> Inl err
            | Inr (w1, new_building) \<Rightarrow>
                Inr (bs1\<lparr>build_timers := (build_timers bs1)(ent_id e \<mapsto> 0)\<rparr>,
                     upd (publish w1 (BuildingPlacedEvent (ent_id new_building) bt (team e)
                                        (pos new_building) (ent_id e)))
                         (ent_id e) (\<lambda>e. e\<lparr>build_target := None\<rparr>)))
         else Inr (bs1, w))"

text \<open>Lines 641 to 704: the worker has arrived at the site.\<close>

definition build_at_site ::
  "stats \<Rightarrow> real \<Rightarrow> building_system \<Rightarrow> world \<Rightarrow> entity \<Rightarrow> string \<Rightarrow> real \<Rightarrow> real \<Rightarrow>
   py_error + (building_system \<times> world)" where
  "build_at_site cfg dt bs w e bt bx by =
     (case BUILDING_STATS cfg bt of
        None \<Rightarrow> Inl KeyError
      | Some st \<Rightarrow>
          (case team_minerals w (team e) of
             None \<Rightarrow> Inl KeyError
           | Some m \<Rightarrow>
               if m < bst_cost st then
                 (let w1 = upd w (ent_id e) (\<lambda>e. e\<lparr>waiting_for_minerals := True\<rparr>) in
                  if team e = 1 \<and> mineral_warning_cooldown bs (ent_id e) = None then
                    Inr (bs\<lparr>mineral_warning_cooldown :=
                              (mineral_warning_cooldown bs)(ent_id e \<mapsto> 10)\<rparr>,
                         publish w1 (WorkerWaitingForMineralsEvent (ent_id e) (team e) bt (bst_cost st)))
                  else Inr (bs, w1))
               else
                 (let w1 = upd w (ent_id e) (\<lambda>e. e\<lparr>waiting_for_minerals := False\<rparr>);
                      w2 = (if build_timers bs (ent_id e) = None
                            then publish w1 (BuildingConstructionStartEvent (ent_id e) (team e) bt (bx, by))
                            else w1)
                  in if site_occupied w2 (ent_id e) bx by then
                       Inr (bs\<lparr>build_timers := (build_timers bs)(ent_id e \<mapsto> 0)\<rparr>,
                            upd w2 (ent_id e) (\<lambda>e. e\<lparr>build_target := None\<rparr>))
                     else progress_build cfg dt bs w2 e bt bx by st m)))"

text \<open>The loop body of \<^verbatim>\<open>BuildingPlacementSystem.update\<close> for the entity with id \<open>i\<close>.\<close>

definition building_entity ::
  "stats \<Rightarrow> real \<Rightarrow> int \<Rightarrow> building_system \<times> world \<Rightarrow> py_error + (building_system \<times> world)" where
  "building_entity cfg dt i s =
     (let bs = fst s; w = snd s in
      case get_entity w i of
        None \<Rightarrow> Inr s
      | Some e \<Rightarrow>
          if kind e \<noteq> Worker \<or> \<not> alive e then Inr s
          else
            (case build_target e of
               None \<Rightarrow> Inr (bs, upd w i (\<lambda>e. e\<lparr>waiting_for_minerals := False\<rparr>))
             | Some tgt \<Rightarrow>
                 (let bt = fst tgt; bx = fst (snd tgt); by = snd (snd tgt) in
                  case game_map w of
                    None \<Rightarrow> Inr (bs, cancel_build w i)
                  | Some gm \<Rightarrow>
                      if \<not> (0 \<le> py_int bx \<and> py_int bx < width gm \<and>
                             0 \<le> py_int by \<and> py_int by < height gm) then
                        Inr (bs, cancel_build w i)
                      else if \<not> is_buildable gm (py_int bx) (py_int by) 2 then
                        Inr (bs, cancel_build w i)
                      else if sqrt ((bx - pos_x e) * (bx - pos_x e) + (by - pos_y e) * (by - pos_y e)) > 2 then
                        Inr (bs, upd w i (\<lambda>e. e\<lparr>destination := Some (bx, by),
                                                 waiting_for_minerals := False\<rparr>))
                      else
                        build_at_site cfg dt bs (upd w i (\<lambda>e. e\<lparr>destination := None\<rparr>))
                          e bt bx by)))"

definition building_update ::
  "stats \<Rightarrow> real \<Rightarrow> building_system \<times> world \<Rightarrow> py_error + (building_system \<times> world)" where
  "building_update cfg dt s =
     fold_err (building_entity cfg dt) (map ent_id (entities (snd s)))
       ((fst s)\<lparr>mineral_warning_cooldown := tick_cooldowns dt (mineral_warning_cooldown (fst s))\<rparr>,
        snd s)"

text \<open>
  The invariant of the economy: every team's mineral total is non-negative, and so is
  what every entity carries.
\<close>

definition minerals_nonneg :: "world \<Rightarrow> bool" where
  "minerals_nonneg w = (\<forall>t m. team_minerals w t = Some m \<longrightarrow> 0 \<le> m)"

definition carrying_nonneg :: "world \<Rightarrow> bool" where
  "carrying_nonneg w = (\<forall>e \<in> set (entities w). 0 \<le> carrying e)"

definition econ_inv :: "world \<Rightarrow> bool" where
  "econ_inv w = (minerals_nonneg w \<and> carrying_nonneg w)"


text \<open>A 4 by 4 map of grass.\<close>

definition grass_map :: game_map where
  "grass_map = \<lparr> width = 4, height = 4,
                  tiles = [[0, 0, 0, 0], [0, 0, 0, 0], [0, 0, 0, 0], [0, 0, 0, 0]] \<rparr>"

text \<open>
  A scene for worked examples, with 200 minerals for team 1: a base at (0, 0) that has
  a worker queued, and a worker at \<open>p\<close> in state \<open>worker_state\<close> that carries 8
  minerals and is to build a barracks at the site (2, 2).
\<close>

definition econ_scene :: "string \<Rightarrow> real \<times> real \<Rightarrow> world" where
  "econ_scene worker_state p =
     World_init\<lparr>entities :=
                  [(new_entity Base 1 1 (0, 0) 500)\<lparr>production_queue := [''Worker''], build_time := 8\<rparr>,
                   (new_entity Worker 2 1 p 50)
                     \<lparr>state := worker_state, carrying := 8,
                      build_target := Some (''Barracks'', 2, 2)\<rparr>],
                next_id := 3, game_map := Some grass_map,
                team_minerals := [1 \<mapsto> 200, 2 \<mapsto> 100]\<rparr>"

subsection \<open>Combat system (\<^verbatim>\<open>systems.py\<close>, class CombatSystem)\<close>

record combat_system =
  base_attack_cooldown :: "int \<rightharpoonup> real"

definition CombatSystem_init :: combat_system where
  "CombatSystem_init = \<lparr> base_attack_cooldown = Map.empty \<rparr>"

text \<open>\<^verbatim>\<open>Entity.kind\<close>: the class name.\<close>

definition kind_name :: "kind \<Rightarrow> string" where
  "kind_name k = (case k of Worker \<Rightarrow> ''Worker'' | Soldier \<Rightarrow> ''Soldier''
                  | Base \<Rightarrow> ''Base'' | Barracks \<Rightarrow> ''Barracks'')"

text \<open>\<^verbatim>\<open>min(enemies, key=...)\<close>: the first enemy at the least squared distance.\<close>

definition nearest_enemy :: "entity \<Rightarrow> entity list \<Rightarrow> entity option" where
  "nearest_enemy e enemies =
     fold (\<lambda>c best.
             case best of
               None \<Rightarrow> Some c
             | Some b \<Rightarrow>
                 if (pos_x c - pos_x e)\<^sup>2 + (pos_y c - pos_y e)\<^sup>2 <
                    (pos_x b - pos_x e)\<^sup>2 + (pos_y b - pos_y e)\<^sup>2
                 then Some c else Some b)
          enemies None"

text \<open>
  Lines 335 to 347: the alert for an attacked base, at most one per \<open>10\<close> seconds of
  game time since the last alert recorded for that base (0 when there is none).
\<close>

definition base_attack_alert ::
  "combat_system \<Rightarrow> world \<Rightarrow> entity \<Rightarrow> int \<Rightarrow> combat_system \<times> world" where
  "base_attack_alert cs w tg attacker_id =
     (let base_id = ent_id tg;
          last_alert = (case base_attack_cooldown cs base_id of None \<Rightarrow> 0 | Some t \<Rightarrow> t);
          current_time = game_time w
      in if current_time - last_alert \<ge> 10 then
           (cs\<lparr>base_attack_cooldown := (base_attack_cooldown cs)(base_id \<mapsto> current_time)\<rparr>,
            publish w (BaseUnderAttackEvent (ent_id tg) (team tg) attacker_id))
         else (cs, w))"

text \<open>
  Lines 324 to 350: the attack itself. The state of the loop is the system, the world
  and the list \<^verbatim>\<open>dead_entities\<close> (target id, killer id).
\<close>

definition combat_hit ::
  "combat_system \<times> world \<times> (int \<times> int) list \<Rightarrow> entity \<Rightarrow> entity \<Rightarrow>
   combat_system \<times> world \<times> (int \<times> int) list" where
  "combat_hit s e tg =
     (let cs = fst s; w = fst (snd s); dead = snd (snd s);
          w1 = upd w (ent_id tg) (\<lambda>t. take_damage t (damage e));
          w2 = upd w1 (ent_id e) (\<lambda>a. a\<lparr>cooldown_remaining := attack_cooldown a\<rparr>);
          tg1 = take_damage tg (damage e);
          w3 = publish w2 (AttackEvent (ent_id e) (ent_id tg) (damage e) (hp tg1));
          alerted = (if kind tg = Base then base_attack_alert cs w3 tg (ent_id e) else (cs, w3))
      in (fst alerted, snd alerted,
          if \<not> alive tg1 then dead @ [(ent_id tg, ent_id e)] else dead))"

text \<open>Lines 307 to 353: the soldier \<open>e\<close> deals with its target.\<close>

definition combat_target ::
  "combat_system \<times> world \<times> (int \<times> int) list \<Rightarrow> entity \<Rightarrow>
   combat_system \<times> world \<times> (int \<times> int) list" where
  "combat_target s e =
     (let cs = fst s; w = fst (snd s); dead = snd (snd s) in
      if target e = None \<or> target e = Some 0 then s
      else
        (case get_entity w (the (target e)) of
           None \<Rightarrow> (cs, upd w (ent_id e) (\<lambda>a. a\<lparr>target := None\<rparr>), dead)
         | Some tg \<Rightarrow>
             if \<not> alive tg then (cs, upd w (ent_id e) (\<lambda>a. a\<lparr>target := None\<rparr>), dead)
             else if sqrt ((pos_x tg - pos_x e) * (pos_x tg - pos_x e) +
                           (pos_y tg - pos_y e) * (pos_y tg - pos_y e)) \<le> attack_range e then
               (let w1 = upd w (ent_id e) (\<lambda>a. a\<lparr>destination := None, path := []\<rparr>) in
                if cooldown_remaining e \<le> 0 then combat_hit (cs, w1, dead) e tg
                else (cs, w1, dead))
             else (cs, upd w (ent_id e) (\<lambda>a. a\<lparr>destination := Some (pos_x tg, pos_y tg)\<rparr>), dead)))"

text \<open>The loop body of \<^verbatim>\<open>CombatSystem.update\<close> for the entity with id \<open>i\<close>.\<close>

definition combat_entity ::
  "real \<Rightarrow> int \<Rightarrow> combat_system \<times> world \<times> (int \<times> int) list \<Rightarrow>
   combat_system \<times> world \<times> (int \<times> int) list" where
  "combat_entity dt i s =
     (let cs = fst s; w = fst (snd s); dead = snd (snd s) in
      case get_entity w i of
        None \<Rightarrow> s
      | Some e \<Rightarrow>
          if kind e \<noteq> Soldier \<or> \<not> alive e then s
          else
            (let e1 = (if cooldown_remaining e > 0
                       then e\<lparr>cooldown_remaining := cooldown_remaining e - dt\<rparr> else e);
                 e2 = (if target e1 = None then
                         (case nearest_enemy e1 (get_enemies_in_range w e1 (attack_range e1 * 2)) of
                            None \<Rightarrow> e1
                          | Some c \<Rightarrow> e1\<lparr>target := Some (ent_id c)\<rparr>)
                       else e1)
             in combat_target (cs, upd w i (\<lambda>_. e2), dead) e2))"

text \<open>Lines 355 to 363: the deaths collected by the loop are published after it.\<close>

definition publish_death :: "int \<times> int \<Rightarrow> world \<Rightarrow> world" where
  "publish_death d w =
     (case get_entity w (fst d) of
        None \<Rightarrow> w
      | Some t \<Rightarrow> publish w (DeathEvent (ent_id t) (kind_name (kind t)) (team t) (pos t) (Some (snd d))))"

definition combat_update :: "real \<Rightarrow> combat_system \<times> world \<Rightarrow> combat_system \<times> world" where
  "combat_update dt s =
     (let r = fold (combat_entity dt) (map ent_id (entities (snd s))) (fst s, snd s, [])
      in (fst r, fold publish_death (snd (snd r)) (fst (snd r))))"

text \<open>
  The BaseUnderAttackEvents published so far, in order, each as the game time of its
  publication and the id of the base.
\<close>

definition base_alert_of :: "real \<times> event \<Rightarrow> (real \<times> int) list" where
  "base_alert_of te = (case snd te of BaseUnderAttackEvent b _ _ \<Rightarrow> [(fst te, b)] | _ \<Rightarrow> [])"

definition base_alerts :: "world \<Rightarrow> (real \<times> int) list" where
  "base_alerts w = concat (map base_alert_of (published w))"

text \<open>
  The states a combat system and its world go through in a game: the system starts
  with an empty cooldown table in a world where no alert has been published; ticks of
  the combat system alternate with everything else (the other systems, the clock, the
  player's commands), which never turns the game time back and publishes no
  BaseUnderAttackEvent, since \<^verbatim>\<open>CombatSystem.update\<close> is the only publisher.
\<close>

inductive combat_reachable :: "combat_system \<times> world \<Rightarrow> bool" where
  start: "base_alerts w = [] \<Longrightarrow> combat_reachable (CombatSystem_init, w)"
| combat: "combat_reachable s \<Longrightarrow> combat_reachable (combat_update dt s)"
| other: "combat_reachable (cs, w) \<Longrightarrow> game_time w \<le> game_time w' \<Longrightarrow>
          base_alerts w' = base_alerts w \<Longrightarrow> combat_reachable (cs, w')"

text \<open>Two alerts for the same base are at least 10 seconds of game time apart.\<close>

definition alert_gap :: "real \<times> int \<Rightarrow> real \<times> int \<Rightarrow> bool" where
  "alert_gap a b = (snd a = snd b \<longrightarrow> fst b - fst a \<ge> 10)"

definition combat_inv :: "combat_system \<Rightarrow> world \<Rightarrow> bool" where
  "combat_inv cs w =
     (sorted_wrt alert_gap (base_alerts w) \<and>
      (\<forall>a \<in> set (base_alerts w). \<exists>l. base_attack_cooldown cs (snd a) = Some l \<and> fst a \<le> l) \<and>
      (\<forall>b l. base_attack_cooldown cs b = Some l \<longrightarrow> l \<le> game_time w))"


text \<open>
  A scene for worked examples: at game time \<open>t\<close>, two soldiers of team 2 stand on the
  base of team 1, both with the base as target and ready to strike.
\<close>

definition siege_scene :: "real \<Rightarrow> world" where
  "siege_scene t =
     World_init\<lparr>entities :=
                  [new_entity Base 1 1 (0, 0) 500,
                   (new_entity Soldier 2 2 (0, 0) 80)
                     \<lparr>damage := 10, attack_range := 2, attack_cooldown := 1, target := Some 1\<rparr>,
                   (new_entity Soldier 3 2 (0, 0) 80)
                     \<lparr>damage := 10, attack_range := 2, attack_cooldown := 1, target := Some 1\<rparr>],
                next_id := 4, game_time := t\<rparr>"

text \<open>
  Combat at game time 10, then, with the soldiers ready again, at game time 20; the
  event log is carried over.
\<close>

definition siege_first :: "combat_system \<times> world" where
  "siege_first = combat_update (1/30) (CombatSystem_init, siege_scene 10)"

definition siege_second :: "combat_system \<times> world" where
  "siege_second =
     combat_update (1/30)
       (fst siege_first, (siege_scene 20)\<lparr>published := published (snd siege_first)\<rparr>)"


subsection \<open>Pathfinder (\<^verbatim>\<open>systems.py\<close>, class PathFinder)\<close>

type_synonym tile = "int \<times> int"

definition DIRECTIONS :: "(tile \<times> real) list" where
  "DIRECTIONS =
     [((-1, -1), 1.414), ((0, -1), 1), ((1, -1), 1.414), ((-1, 0), 1),
      ((1, 0), 1), ((-1, 1), 1.414), ((0, 1), 1), ((1, 1), 1.414)]"

definition heuristic :: "tile \<Rightarrow> tile \<Rightarrow> real" where
  "heuristic a b =
     (let dx = \<bar>fst a - fst b\<bar>; dy = \<bar>snd a - snd b\<bar>
      in real_of_int (max dx dy) + 0.414 * real_of_int (min dx dy))"

text \<open>
  \<^verbatim>\<open>_find_nearest_walkable\<close>: the tiles on the square rings of radius 1 to 9 around
  \<open>p\<close>, in the order of the three loops; the first walkable one is returned.
\<close>

definition ring_candidates :: "tile \<Rightarrow> tile list" where
  "ring_candidates p =
     concat (map (\<lambda>radius.
       concat (map (\<lambda>dx.
         concat (map (\<lambda>dy. if \<bar>dx\<bar> = radius \<or> \<bar>dy\<bar> = radius then [(fst p + dx, snd p + dy)] else [])
                     (py_range (- radius) (radius + 1))))
                   (py_range (- radius) (radius + 1))))
                 (py_range 1 10))"

definition find_nearest_walkable :: "game_map \<Rightarrow> tile \<Rightarrow> tile option" where
  "find_nearest_walkable gm p = find (\<lambda>t. is_walkable gm (fst t) (snd t)) (ring_candidates p)"

text \<open>
  \<^verbatim>\<open>_reconstruct_path\<close>: the loop follows \<open>came_from\<close> for as long as the current tile
  has an entry, appending to \<open>path\<close>; a cycle in \<open>came_from\<close> would make it run forever
  (the value None). The result is the reversed list without its first element.
\<close>

partial_function (option) reconstruct_loop :: "(tile \<rightharpoonup> tile) \<Rightarrow> tile \<Rightarrow> tile list \<Rightarrow> tile list option" where
  "reconstruct_loop cf current p =
     (case cf current of
        None \<Rightarrow> Some p
      | Some prev \<Rightarrow> reconstruct_loop cf prev (p @ [prev]))"

definition reconstruct_path :: "(tile \<rightharpoonup> tile) \<Rightarrow> tile \<Rightarrow> tile list option" where
  "reconstruct_path cf current = map_option (\<lambda>p. tl (rev p)) (reconstruct_loop cf current [current])"

text \<open>
  The state of the A* loop. \<open>open_set\<close> holds the entries of the heap; \<^verbatim>\<open>heappop\<close>
  returns the least entry in the order of Python tuples, whatever the layout of the
  heap, so the heap is modelled by the list of its entries.
\<close>

record astar_state =
  open_set :: "(real \<times> nat \<times> tile) list"
  came_from :: "tile \<rightharpoonup> tile"
  g_score :: "tile \<rightharpoonup> real"
  counter :: nat

definition entry_less :: "real \<times> nat \<times> tile \<Rightarrow> real \<times> nat \<times> tile \<Rightarrow> bool" where
  "entry_less a b =
     (fst a < fst b \<or>
      (fst a = fst b \<and>
        (fst (snd a) < fst (snd b) \<or>
         (fst (snd a) = fst (snd b) \<and>
           (fst (snd (snd a)) < fst (snd (snd b)) \<or>
            (fst (snd (snd a)) = fst (snd (snd b)) \<and> snd (snd (snd a)) < snd (snd (snd b))))))))"

definition heap_min :: "real \<times> nat \<times> tile \<Rightarrow> (real \<times> nat \<times> tile) list \<Rightarrow> real \<times> nat \<times> tile" where
  "heap_min x xs = fold (\<lambda>b a. if entry_less b a then b else a) xs x"

text \<open>Lines 84 to 97: one direction from \<open>current\<close>.\<close>

definition relax :: "game_map \<Rightarrow> tile \<Rightarrow> tile \<Rightarrow> tile \<times> real \<Rightarrow> astar_state \<Rightarrow> py_error + astar_state" where
  "relax gm goal current d st =
     (let neighbor = (fst current + fst (fst d), snd current + snd (fst d)) in
      if \<not> is_walkable gm (fst neighbor) (snd neighbor) then Inr st
      else
        (case g_score st current of
           None \<Rightarrow> Inl KeyError
         | Some g \<Rightarrow>
             (let tentative_g = g + snd d in
              if g_score st neighbor = None \<or> tentative_g < the (g_score st neighbor) then
                Inr (st\<lparr>came_from := (came_from st)(neighbor \<mapsto> current),
                        g_score := (g_score st)(neighbor \<mapsto> tentative_g),
                        counter := counter st + 1,
                        open_set := open_set st @
                          [(tentative_g + heuristic neighbor goal, counter st + 1, neighbor)]\<rparr>)
              else Inr st)))"

text \<open>
  Lines 78 to 100: the A* loop. It is not known to end by its form, so not returning
  is the value None.
\<close>

partial_function (option) astar_loop :: "game_map \<Rightarrow> tile \<Rightarrow> astar_state \<Rightarrow> (py_error + tile list) option" where
  "astar_loop gm goal st =
     (case open_set st of
        [] \<Rightarrow> Some (Inr [])
      | x # xs \<Rightarrow>
          (let entry = heap_min x xs;
               current = snd (snd entry);
               st1 = st\<lparr>open_set := remove1 entry (x # xs)\<rparr>
           in if current = goal then map_option Inr (reconstruct_path (came_from st1) current)
              else
                (case fold_err (relax gm goal current) DIRECTIONS st1 of
                   Inl err \<Rightarrow> Some (Inl err)
                 | Inr st2 \<Rightarrow> astar_loop gm goal st2)))"

definition tile_of :: "real \<times> real \<Rightarrow> tile" where
  "tile_of p = (py_int (fst p), py_int (snd p))"

definition astar_init :: "tile \<Rightarrow> astar_state" where
  "astar_init start =
     \<lparr> open_set = [(0, 0, start)], came_from = Map.empty, g_score = [start \<mapsto> 0], counter = 0 \<rparr>"

text \<open>The tile the search aims at: the goal tile, or the nearest walkable one.\<close>

definition search_goal :: "game_map \<Rightarrow> tile \<Rightarrow> tile option" where
  "search_goal gm goal =
     (if \<not> is_walkable gm (fst goal) (snd goal) then find_nearest_walkable gm goal else Some goal)"

text \<open>
  \<^verbatim>\<open>find_path\<close>. Without a map the goal is returned as it was given; with a map the
  path is a list of tiles, given here by their coordinates as reals.
\<close>

definition find_path ::
  "game_map option \<Rightarrow> real \<times> real \<Rightarrow> real \<times> real \<Rightarrow> (py_error + (real \<times> real) list) option" where
  "find_path gmo start goal =
     (case gmo of
        None \<Rightarrow> Some (Inr [goal])
      | Some gm \<Rightarrow>
          if tile_of start = tile_of goal then Some (Inr [])
          else
            (case search_goal gm (tile_of goal) of
               None \<Rightarrow> Some (Inr [])
             | Some g \<Rightarrow>
                 map_option (map_sum id (map (\<lambda>t. (real_of_int (fst t), real_of_int (snd t)))))
                            (astar_loop gm g (astar_init (tile_of start)))))"

text \<open>A strip of four tiles, the two on the right rock.\<close>

definition strip_map :: game_map where
  "strip_map = \<lparr> width = 4, height = 1, tiles = [[0, 0, 1, 1]] \<rparr>"

text \<open>A strip of four tiles, the last one rock.\<close>

definition ledge_map :: game_map where
  "ledge_map = \<lparr> width = 4, height = 1, tiles = [[0, 0, 0, 1]] \<rparr>"


subsection \<open>Predicates of the statements\<close>

text \<open>The invariant of the grid while an update runs: the shape, and the watched cell.\<close>

definition seen_inv :: "int \<Rightarrow> int \<Rightarrow> int \<Rightarrow> int \<Rightarrow> visibility list list \<Rightarrow> bool" where
  "seen_inv w h x y g =
     (length g = nat h \<and> list_all (\<lambda>row. length row = nat w) g \<and> get_cell g x y \<noteq> HIDDEN)"



text \<open>What the loop body of the production system does to the mineral totals.\<close>

definition production_deduction :: "stats \<Rightarrow> world \<Rightarrow> int \<Rightarrow> world \<Rightarrow> bool" where
  "production_deduction cfg w i w' =
     (\<exists>b st m. get_entity w i = Some b \<and> production_queue b \<noteq> [] \<and>
        UNIT_STATS cfg (hd (production_queue b)) = Some st \<and>
        team_minerals w (team b) = Some m \<and> st_cost st \<le> m \<and>
        team_minerals w' = (team_minerals w)(team b \<mapsto> m - st_cost st))"

text \<open>What the loop body of building placement does to the mineral totals.\<close>

definition building_deduction :: "stats \<Rightarrow> world \<Rightarrow> int \<Rightarrow> world \<Rightarrow> bool" where
  "building_deduction cfg w i w' =
     (\<exists>e bt bx by st m. get_entity w i = Some e \<and> build_target e = Some (bt, bx, by) \<and>
        BUILDING_STATS cfg bt = Some st \<and>
        team_minerals w (team e) = Some m \<and> bst_cost st \<le> m \<and>
        team_minerals w' = (team_minerals w)(team e \<mapsto> m - bst_cost st))"

text \<open>
  The invariant of the A* loop that keeps the start tile out of \<open>came_from\<close>: the
  start has score 0 and no score is negative, so no step to the start is an
  improvement.
\<close>

definition astar_inv :: "tile \<Rightarrow> astar_state \<Rightarrow> bool" where
  "astar_inv start st =
     (start \<notin> dom (came_from st) \<and> g_score st start = Some 0 \<and>
      (\<forall>n g. g_score st n = Some g \<longrightarrow> 0 \<le> g))"

text \<open>A tile as \<^verbatim>\<open>find_path\<close> returns it.\<close>

definition tile_pos :: "tile \<Rightarrow> real \<times> real" where
  "tile_pos t = (real_of_int (fst t), real_of_int (snd t))"

text \<open>
  The entity lies within half a tile of the point \<open>(wx, wy)\<close>, by its true distance.
\<close>

definition within_half_tile :: "real \<Rightarrow> real \<Rightarrow> entity \<Rightarrow> bool" where
  "within_half_tile wx wy e =
     (sqrt ((pos_x e - wx) * (pos_x e - wx) + (pos_y e - wy) * (pos_y e - wy)) \<le> 1/2)"

text \<open>
  Position \<open>i\<close> of the entity table holds the first living entity within half a tile
  of the point: no position before it holds one.
\<close>

definition first_hit :: "entity list \<Rightarrow> real \<Rightarrow> real \<Rightarrow> nat \<Rightarrow> bool" where
  "first_hit es wx wy i =
     (i < length es \<and> alive (es ! i) \<and> within_half_tile wx wy (es ! i) \<and>
      (\<forall>j < i. \<not> (alive (es ! j) \<and> within_half_tile wx wy (es ! j))))"

text \<open>
  The click goes to build placement: build mode is on, a build type is set (not None,
  not the empty string), and the first selected id is the id of an entity of the table.
\<close>

definition build_click :: "game \<Rightarrow> bool" where
  "build_click g =
     (build_mode g \<and> (\<exists>s. build_type g = Some s \<and> s \<noteq> []) \<and>
      (\<exists>first_id others. selected_ids (selection g) = first_id # others \<and>
         (\<exists>e \<in> set (entities (world g)). ent_id e = first_id)))"

text \<open>The event announces that the building with id \<open>i\<close> has started an item.\<close>

definition started_by :: "int \<Rightarrow> event \<Rightarrow> bool" where
  "started_by i ev = (case ev of ProductionStartedEvent bid _ _ _ \<Rightarrow> bid = i | _ \<Rightarrow> False)"

text \<open>
  The minerals that a published event stands for on the account of team \<open>t\<close>: the
  cost of the unit type of a ProductionStartedEvent of that team, nothing otherwise.
\<close>

definition started_cost :: "stats \<Rightarrow> int \<Rightarrow> event \<Rightarrow> int" where
  "started_cost cfg t ev =
     (case ev of
        ProductionStartedEvent _ unit_type tm _ \<Rightarrow>
          (if tm = t then (case UNIT_STATS cfg unit_type of None \<Rightarrow> 0 | Some st \<Rightarrow> st_cost st)
           else 0)
      | _ \<Rightarrow> 0)"

text \<open>Every id of the entity table lies below the counter that hands out new ids.\<close>

definition fresh_ids :: "world \<Rightarrow> bool" where
  "fresh_ids w = (\<forall>e \<in> set (entities w). ent_id e < next_id w)"

text \<open>
  What a step of the production loop for another entity leaves of the entity with id
  \<open>i\<close> and of the accounts: the entity is as before, no start of an item by \<open>i\<close> is
  announced, and every team's total went down by the costs of the announced starts.
\<close>

definition other_visit :: "stats \<Rightarrow> int \<Rightarrow> world \<Rightarrow> world \<Rightarrow> bool" where
  "other_visit cfg i w w' =
     (fresh_ids w' \<and> next_id w \<le> next_id w' \<and> get_entity w' i = get_entity w i \<and>
      (\<exists>evs. published w' = published w @ evs \<and>
         (\<forall>x \<in> set evs. \<not> started_by i (snd x)) \<and>
         (\<forall>t m. team_minerals w t = Some m \<longrightarrow>
            team_minerals w' t = Some (m - sum_list (map (\<lambda>x. started_cost cfg t (snd x)) evs)))))"

text \<open>The Chebyshev distance of two tiles: the radius of the square ring of one around the other.\<close>

definition chebyshev :: "tile \<Rightarrow> tile \<Rightarrow> int" where
  "chebyshev a b = max \<bar>fst a - fst b\<bar> \<bar>snd a - snd b\<bar>"

text \<open>
  The order in which a scan of the square rings around \<open>p\<close> meets the tiles: inner
  rings first, on one ring the columns from left to right, in one column the rows
  from top to bottom.
\<close>

definition scanned_before :: "tile \<Rightarrow> tile \<Rightarrow> tile \<Rightarrow> bool" where
  "scanned_before p u t =
     (chebyshev u p < chebyshev t p \<or>
      (chebyshev u p = chebyshev t p \<and> (fst u < fst t \<or> (fst u = fst t \<and> snd u < snd t))))"

text \<open>
  \<open>t\<close> is the first walkable tile on the rings of radius 1 to 9 around \<open>p\<close>: it is
  walkable, on one of these rings, and no tile that the scan meets before it is
  walkable.
\<close>

definition first_ring_tile :: "game_map \<Rightarrow> tile \<Rightarrow> tile \<Rightarrow> bool" where
  "first_ring_tile gm p t =
     (is_walkable gm (fst t) (snd t) \<and> 1 \<le> chebyshev t p \<and> chebyshev t p \<le> 9 \<and>
      (\<forall>u. 1 \<le> chebyshev u p \<and> scanned_before p u t \<longrightarrow> \<not> is_walkable gm (fst u) (snd u)))"


section \<open>Properties\<close>

subsection \<open>Building queue\<close>

lemma queue_production_full:
  "length (production_queue b) = 5 \<Longrightarrow> queue_production b u = (b, False)"
  by (simp add: queue_production_def MAX_QUEUE_SIZE_def)

lemma apply_queue_op_bound:
  "length (production_queue b) \<le> 5 \<Longrightarrow> length (production_queue (apply_queue_op b opn)) \<le> 5"
  by (cases opn)
     (auto simp: queue_production_def start_production_def complete_production_def
                 MAX_QUEUE_SIZE_def split: list.splits)

lemma apply_queue_ops_bound:
  "length (production_queue b) \<le> 5 \<Longrightarrow> length (production_queue (apply_queue_ops b ops)) \<le> 5"
  by (induction ops arbitrary: b) (simp_all add: apply_queue_op_bound)

text \<open>
  C7. A building whose production queue holds 5 items refuses a further item:
  \<^verbatim>\<open>queue_production\<close> returns False and the building is unchanged. Consequently the
  queue of a building never exceeds 5 items, whatever sequence of queue operations
  (\<^verbatim>\<open>queue_production\<close>, \<^verbatim>\<open>start_production\<close>, \<^verbatim>\<open>complete_production\<close>) is applied to it.
\<close>

theorem queue_refuses_sixth_item:
  "(length (production_queue b) = 5 \<longrightarrow> queue_production b u = (b, False)) \<and>
   (length (production_queue b) \<le> 5 \<longrightarrow>
      length (production_queue (apply_queue_ops b ops)) \<le> 5)"
  using queue_production_full apply_queue_ops_bound by blast

text \<open>The theorem at a base that already queues five workers.\<close>

theorem queue_refuses_sixth_item_witness:
  "queue_production
     ((new_entity Base 1 1 (5, 5) 500)\<lparr>production_queue := replicate 5 ''Worker''\<rparr>) ''Worker''
     = ((new_entity Base 1 1 (5, 5) 500)\<lparr>production_queue := replicate 5 ''Worker''\<rparr>, False) \<and>
   length (production_queue (apply_queue_ops
     ((new_entity Base 1 1 (5, 5) 500)\<lparr>production_queue := replicate 5 ''Worker''\<rparr>)
     [StartProduction, CompleteProduction, QueueProduction ''Worker'', StartProduction])) \<le> 5"
  using queue_refuses_sixth_item
    [of "(new_entity Base 1 1 (5, 5) 500)\<lparr>production_queue := replicate 5 ''Worker''\<rparr>"
        "''Worker''"
        "[StartProduction, CompleteProduction, QueueProduction ''Worker'', StartProduction]"]
  by simp

subsection \<open>Fog of war\<close>

lemma fold_preserves:
  assumes "\<And>a s. P s \<Longrightarrow> P (f a s)" and "P s"
  shows "P (fold f xs s)"
  using assms(2) by (induction xs arbitrary: s) (simp_all add: assms(1))

lemma set_cell_shape:
  assumes "length g = nat h" and "list_all (\<lambda>row. length row = nat w) g"
  shows "length (set_cell g x' y' v) = nat h \<and>
         list_all (\<lambda>row. length row = nat w) (set_cell g x' y' v)"
proof -
  have "\<And>r. r \<in> set (set_cell g x' y' v) \<Longrightarrow> length r = nat w"
  proof -
    fix r assume r: "r \<in> set (set_cell g x' y' v)"
    then have "r \<in> insert ((g ! nat y')[nat x' := v]) (set g)"
      unfolding set_cell_def using set_update_subset_insert by fastforce
    moreover have "nat y' < length g \<Longrightarrow> length ((g ! nat y')[nat x' := v]) = nat w"
      using assms(2) by (simp add: list_all_iff)
    moreover have "\<not> nat y' < length g \<Longrightarrow> set_cell g x' y' v = g"
      by (simp add: set_cell_def list_update_beyond)
    ultimately show "length r = nat w"
      using assms(2) r by (cases "nat y' < length g") (auto simp: list_all_iff)
  qed
  then show ?thesis
    using assms(1) by (simp add: list_all_iff set_cell_def)
qed

lemma get_set_cell:
  assumes "length g = nat h" and "list_all (\<lambda>row. length row = nat w) g"
    and "0 \<le> x" "x < w" "0 \<le> y" "y < h"
  shows "get_cell (set_cell g x' y' v) x y = v \<or>
         get_cell (set_cell g x' y' v) x y = get_cell g x y"
proof -
  have y: "nat y < length g" using assms by simp
  then have "g ! nat y \<in> set g" by simp
  then have x: "nat x < length (g ! nat y)"
    using assms by (auto simp: list_all_iff)
  show ?thesis
    unfolding get_cell_def set_cell_def using x y
    by (cases "nat y' = nat y"; cases "nat x' = nat x") simp_all
qed

lemma set_cell_seen_inv:
  assumes "seen_inv w h x y g" and "0 \<le> x" "x < w" "0 \<le> y" "y < h" and "v \<noteq> HIDDEN"
  shows "seen_inv w h x y (set_cell g x' y' v)"
  using assms set_cell_shape [of g h w x' y' v] get_set_cell [of g h w x y x' y' v]
  unfolding seen_inv_def by auto

lemma demote_cell_seen_inv:
  assumes "seen_inv w h x y g" and "0 \<le> x" "x < w" "0 \<le> y" "y < h"
  shows "seen_inv w h x y (demote_cell y' x' g)"
  using assms by (simp add: demote_cell_def set_cell_seen_inv)

lemma reveal_cell_seen_inv:
  assumes "seen_inv w h x y (fst s)" and "0 \<le> x" "x < w" "0 \<le> y" "y < h"
  shows "seen_inv w h x y (fst (reveal_cell f vis cx cy dy dx s))"
  using assms by (cases s) (simp add: reveal_cell_def Let_def set_cell_seen_inv)

lemma reveal_entity_seen_inv:
  assumes "seen_inv w h x y (fst s)" and "0 \<le> x" "x < w" "0 \<le> y" "y < h"
  shows "seen_inv w h x y (fst (reveal_entity f e s))"
proof -
  let ?P = "\<lambda>s. seen_inv w h x y (fst s)"
  have inner: "\<And>dy s1. ?P s1 \<Longrightarrow>
      ?P (fold (reveal_cell f (vision e) (py_int (pos_x e)) (py_int (pos_y e)) dy)
            (py_range (- vision e) (vision e + 1)) s1)"
    by (rule fold_preserves [where P = ?P]) (simp_all add: reveal_cell_seen_inv assms(2-))
  show ?thesis
    unfolding reveal_entity_def Let_def using assms(1)
    by (auto intro!: fold_preserves [where P = ?P] inner)
qed

lemma demote_all_seen_inv:
  assumes "seen_inv (fog_width f) (fog_height f) x y (grid f)"
    and "0 \<le> x" "x < fog_width f" "0 \<le> y" "y < fog_height f"
  shows "seen_inv (fog_width f) (fog_height f) x y (demote_all f)"
proof -
  let ?P = "seen_inv (fog_width f) (fog_height f) x y"
  have inner: "\<And>y' g. ?P g \<Longrightarrow> ?P (fold (demote_cell y') (py_range 0 (fog_width f)) g)"
    by (rule fold_preserves [where P = ?P]) (simp_all add: demote_cell_seen_inv assms(2-))
  show ?thesis
    unfolding demote_all_def using assms(1)
    by (auto intro!: fold_preserves [where P = ?P] inner)
qed

lemma update_visibility_seen_inv:
  assumes "seen_inv (fog_width f) (fog_height f) x y (grid f)"
    and "0 \<le> x" "x < fog_width f" "0 \<le> y" "y < fog_height f"
  shows "seen_inv (fog_width f) (fog_height f) x y (grid (fst (update_visibility f ents)))"
proof -
  let ?P = "\<lambda>s. seen_inv (fog_width f) (fog_height f) x y (fst s)"
  have "?P (fold (reveal_entity f) ents (demote_all f, {}))"
    by (rule fold_preserves [where P = ?P])
       (simp_all add: reveal_entity_seen_inv demote_all_seen_inv assms)
  then show ?thesis
    by (auto simp: update_visibility_def split: prod.splits)
qed

lemma update_visibility_dims:
  "fog_width (fst (update_visibility f ents)) = fog_width f \<and>
   fog_height (fst (update_visibility f ents)) = fog_height f"
  by (simp add: update_visibility_def split: prod.splits)

lemma update_visibility_many_seen_inv:
  assumes "seen_inv (fog_width f) (fog_height f) x y (grid f)"
    and "0 \<le> x" "x < fog_width f" "0 \<le> y" "y < fog_height f"
  shows "seen_inv (fog_width f) (fog_height f) x y (grid (update_visibility_many f updates))"
  using assms
proof (induction updates arbitrary: f)
  case Nil
  then show ?case by simp
next
  case (Cons ents rest)
  let ?f1 = "fst (update_visibility f ents)"
  have dims: "fog_width ?f1 = fog_width f" "fog_height ?f1 = fog_height f"
    using update_visibility_dims by auto
  have "seen_inv (fog_width ?f1) (fog_height ?f1) x y (grid ?f1)"
    using update_visibility_seen_inv [OF Cons.prems] dims by simp
  then have "seen_inv (fog_width ?f1) (fog_height ?f1) x y
               (grid (update_visibility_many ?f1 rest))"
    using Cons.IH [of ?f1] Cons.prems dims by simp
  then show ?case using dims by simp
qed

text \<open>
  C6. In a fog grid of the constructor's shape, a cell inside the grid that is VISIBLE
  or EXPLORED is still VISIBLE or EXPLORED after any number of calls of
  \<^verbatim>\<open>update_visibility\<close>, whatever entities each call is given: no update takes a cell
  back to HIDDEN.
\<close>

theorem fog_never_back_to_hidden:
  assumes "fog_shape f"
    and "0 \<le> x" "x < fog_width f" "0 \<le> y" "y < fog_height f"
    and "get_cell (grid f) x y = VISIBLE \<or> get_cell (grid f) x y = EXPLORED"
  shows "get_cell (grid (update_visibility_many f updates)) x y = VISIBLE \<or>
         get_cell (grid (update_visibility_many f updates)) x y = EXPLORED"
proof -
  have "seen_inv (fog_width f) (fog_height f) x y (grid f)"
    using assms(1,6) by (auto simp: seen_inv_def fog_shape_def)
  then have "seen_inv (fog_width f) (fog_height f) x y (grid (update_visibility_many f updates))"
    using assms(2-5) by (rule update_visibility_many_seen_inv)
  then have "get_cell (grid (update_visibility_many f updates)) x y \<noteq> HIDDEN"
    by (simp add: seen_inv_def)
  then show ?thesis
    by (cases "get_cell (grid (update_visibility_many f updates)) x y") simp_all
qed

text \<open>The theorem on a 2 by 1 grid: a soldier sees both cells, then nobody does.\<close>

theorem fog_never_back_to_hidden_witness:
  "fog_shape \<lparr> fog_width = 2, fog_height = 1, grid = [[VISIBLE, HIDDEN]] \<rparr> \<and>
   get_cell (grid \<lparr> fog_width = 2, fog_height = 1, grid = [[VISIBLE, HIDDEN]] \<rparr>) 0 0 = VISIBLE \<and>
   (get_cell (grid (update_visibility_many
        \<lparr> fog_width = 2, fog_height = 1, grid = [[VISIBLE, HIDDEN]] \<rparr>
        [[(new_entity Soldier 1 1 (1, 0) 40)\<lparr>vision := 1\<rparr>], []])) 0 0 = VISIBLE \<or>
    get_cell (grid (update_visibility_many
        \<lparr> fog_width = 2, fog_height = 1, grid = [[VISIBLE, HIDDEN]] \<rparr>
        [[(new_entity Soldier 1 1 (1, 0) 40)\<lparr>vision := 1\<rparr>], []])) 0 0 = EXPLORED)"
  using fog_never_back_to_hidden
    [of "\<lparr> fog_width = 2, fog_height = 1, grid = [[VISIBLE, HIDDEN]] \<rparr>" 0 0
        "[[(new_entity Soldier 1 1 (1, 0) 40)\<lparr>vision := 1\<rparr>], []]"]
  by (simp add: fog_shape_def get_cell_def)

subsection \<open>Drag selection\<close>














subsection \<open>Click selection\<close>

lemma issue_orders_selection: "selection (issue_orders dests g c wx wy) = selection g"
  by (simp add: issue_orders_def Let_def)

lemma within_half_tile_sq:
  "within_half_tile wx wy e \<longleftrightarrow>
     (pos_x e - wx) * (pos_x e - wx) + (pos_y e - wy) * (pos_y e - wy) \<le> 1/4"
proof -
  let ?d = "(pos_x e - wx) * (pos_x e - wx) + (pos_y e - wy) * (pos_y e - wy)"
  have "sqrt ?d \<le> sqrt (1/4) \<longleftrightarrow> ?d \<le> 1/4" by (rule real_sqrt_le_iff)
  moreover have "sqrt (1/4) = 1/2"
    by (rule real_sqrt_unique) (simp_all add: power2_eq_square)
  ultimately show ?thesis by (simp add: within_half_tile_def)
qed

text \<open>
  \<^verbatim>\<open>get_entity_at\<close> with its default radius returns the entity at the first hit of the
  table, and None exactly when the table has no hit.
\<close>

lemma get_entity_at_first_hit:
  "get_entity_at w wx wy (1/2) = Some e \<longleftrightarrow>
     (\<exists>i. first_hit (entities w) wx wy i \<and> e = entities w ! i)"
  unfolding get_entity_at_def find_Some_iff first_hit_def within_half_tile_sq
  by (auto simp: Let_def power2_eq_square)

lemma build_click_iff:
  "build_click g \<longleftrightarrow> build_mode g \<and> build_type_set g \<and> first_selected g \<noteq> None"
proof -
  have "build_type_set g \<longleftrightarrow> (\<exists>s. build_type g = Some s \<and> s \<noteq> [])"
    by (cases "build_type g") (simp_all add: build_type_set_def)
  moreover have "first_selected g \<noteq> None \<longleftrightarrow>
      (\<exists>first_id others. selected_ids (selection g) = first_id # others \<and>
         (\<exists>e \<in> set (entities (world g)). ent_id e = first_id))"
    by (cases "selected_ids (selection g)")
       (auto simp: first_selected_def get_entity_def find_None_iff)
  ultimately show ?thesis by (simp add: build_click_def)
qed

text \<open>
  C9, as the code has it. \<^verbatim>\<open>handle_click\<close> asks \<^verbatim>\<open>get_entity_at\<close> with its default
  radius 0.5. If the click does not go to build placement (build mode on, a build type
  set, the first selected id found in the table) and the first living entity of the
  table (in table order) within 0.5 tiles of the click belongs to team 1, the
  selection becomes that single entity, whatever other entities are near the click.
  In every other case (the click goes to build placement, no living entity is within
  0.5 tiles, or the first one is not of team 1) the selection is left as it was.
\<close>

theorem click_selects_first_within_half_tile:
  "(\<forall>i. first_hit (entities (world g)) wx wy i \<and> team (entities (world g) ! i) = 1 \<and>
        \<not> build_click g \<longrightarrow>
      selection (handle_click dests g wx wy) =
        (selection g)\<lparr>selected_ids := [ent_id (entities (world g) ! i)]\<rparr>) \<and>
   (\<not> (\<exists>i. first_hit (entities (world g)) wx wy i \<and> team (entities (world g) ! i) = 1 \<and>
        \<not> build_click g) \<longrightarrow>
      selection (handle_click dests g wx wy) = selection g)"
proof (intro conjI allI impI)
  fix i
  assume a: "first_hit (entities (world g)) wx wy i \<and> team (entities (world g) ! i) = 1 \<and>
        \<not> build_click g"
  then have "get_entity_at (world g) wx wy (1/2) = Some (entities (world g) ! i)"
    unfolding get_entity_at_first_hit by blast
  with a show "selection (handle_click dests g wx wy) =
        (selection g)\<lparr>selected_ids := [ent_id (entities (world g) ! i)]\<rparr>"
    by (auto simp: handle_click_def Let_def select_single_def build_click_iff)
next
  assume n: "\<not> (\<exists>i. first_hit (entities (world g)) wx wy i \<and> team (entities (world g) ! i) = 1 \<and>
        \<not> build_click g)"
  show "selection (handle_click dests g wx wy) = selection g"
  proof (cases "get_entity_at (world g) wx wy (1/2)")
    case None
    then show ?thesis
      by (auto simp: handle_click_def Let_def issue_orders_selection build_click_iff)
  next
    case (Some e)
    then obtain i where i: "first_hit (entities (world g)) wx wy i" "e = entities (world g) ! i"
      unfolding get_entity_at_first_hit by blast
    with n have "team e \<noteq> 1 \<or> build_click g"
      by blast
    with Some show ?thesis
      by (auto simp: handle_click_def Let_def issue_orders_selection build_click_iff)
  qed
qed

text \<open>
  The theorem at a click on (0.3, 0) with two own workers within half a tile: worker 1
  at (0, 0), first in the table, and worker 2 at (0.2, 0), nearer to the click. The
  first hit is position 0 and worker 1 becomes the selection.
\<close>

theorem click_selects_first_within_half_tile_witness:
  "first_hit [new_entity Worker 1 1 (0, 0) 50, new_entity Worker 2 1 (1/5, 0) 50] (3/10) 0 0 \<and>
   alive (new_entity Worker 2 1 (1/5, 0) 50) \<and>
   within_half_tile (3/10) 0 (new_entity Worker 2 1 (1/5, 0) 50) \<and>
   selected_ids (selection (handle_click Map.empty
      \<lparr> world = World_init\<lparr>entities :=
          [new_entity Worker 1 1 (0, 0) 50, new_entity Worker 2 1 (1/5, 0) 50]\<rparr>,
        selection = SelectionManager_init, build_mode = False, build_type = None \<rparr> (3/10) 0))
     = [1]"
proof -
  let ?es = "[new_entity Worker 1 1 (0, 0) 50, new_entity Worker 2 1 (1/5, 0) 50]"
  let ?g = "\<lparr> world = World_init\<lparr>entities := ?es\<rparr>,
        selection = SelectionManager_init, build_mode = False, build_type = None \<rparr>"
  have fh: "first_hit ?es (3/10) 0 0"
    by (simp add: first_hit_def within_half_tile_sq new_entity_def)
  have w2: "alive (new_entity Worker 2 1 (1/5, 0) 50) \<and>
            within_half_tile (3/10) 0 (new_entity Worker 2 1 (1/5, 0) 50)"
    by (simp add: within_half_tile_sq new_entity_def)
  have "first_hit (entities (world ?g)) (3/10) 0 0 \<and> team (entities (world ?g) ! 0) = 1 \<and>
        \<not> build_click ?g"
    using fh by (simp add: new_entity_def build_click_def)
  with click_selects_first_within_half_tile [of ?g "3/10" 0 Map.empty]
  have "selection (handle_click Map.empty ?g (3/10) 0) =
        (selection ?g)\<lparr>selected_ids := [ent_id (entities (world ?g) ! 0)]\<rparr>"
    by blast
  then have "selected_ids (selection (handle_click Map.empty ?g (3/10) 0)) = [1]"
    by (simp add: new_entity_def)
  with fh w2 show ?thesis by simp
qed

text \<open>
  The claim as stated, with radius 1.5, fails: an own worker at (0, 0) is within 1.5
  tiles of a click on (1, 0), and the click selects nothing.
\<close>

theorem click_radius_counterexample:
  "alive (new_entity Worker 1 1 (0, 0) 50) \<and> team (new_entity Worker 1 1 (0, 0) 50) = 1 \<and>
   sqrt ((pos_x (new_entity Worker 1 1 (0, 0) 50) - 1) * (pos_x (new_entity Worker 1 1 (0, 0) 50) - 1) +
         (pos_y (new_entity Worker 1 1 (0, 0) 50) - 0) * (pos_y (new_entity Worker 1 1 (0, 0) 50) - 0))
     \<le> 1.5 \<and>
   selected_ids (selection (handle_click Map.empty
      \<lparr> world = World_init\<lparr>entities := [new_entity Worker 1 1 (0, 0) 50]\<rparr>,
        selection = SelectionManager_init, build_mode = False, build_type = None \<rparr> 1 0)) = []"
  by (simp add: handle_click_def get_entity_at_def World_init_def new_entity_def Let_def
      SelectionManager_init_def has_selection_def build_type_set_def first_selected_def)


subsection \<open>Production\<close>

lemma find_map_upd:
  assumes "\<And>e. ent_id (f e) = ent_id e"
  shows "find (\<lambda>e. ent_id e = j) (map (\<lambda>e. if ent_id e = i then f e else e) es) =
         (if j = i then map_option f (find (\<lambda>e. ent_id e = j) es) else find (\<lambda>e. ent_id e = j) es)"
proof (cases "j = i")
  case True
  have "find (\<lambda>e. ent_id e = i) (map (\<lambda>e. if ent_id e = i then f e else e) es) =
        map_option f (find (\<lambda>e. ent_id e = i) es)"
    by (induction es) (simp_all add: assms)
  with True show ?thesis by simp
next
  case False
  have "find (\<lambda>e. ent_id e = j) (map (\<lambda>e. if ent_id e = i then f e else e) es) =
        find (\<lambda>e. ent_id e = j) es"
    using False by (induction es) (simp_all add: assms)
  with False show ?thesis by simp
qed

lemma get_entity_upd:
  assumes "\<And>e. ent_id (f e) = ent_id e"
  shows "get_entity (upd w i f) j =
         (if j = i then map_option f (get_entity w j) else get_entity w j)"
  using find_map_upd [of f j i "entities w", OF assms]
  by (simp add: get_entity_def upd_def)

lemma production_entity_waits:
  assumes "get_entity w i = Some b" and "is_building b" and "alive b"
    and "production_queue b = u # rest" and "production_progress b = 0"
    and "UNIT_STATS cfg u = Some st" and "team_minerals w (team b) = Some m" and "m < st_cost st"
  shows "production_entity cfg dt draws i w = Inr (upd w i (\<lambda>e. e\<lparr>waiting_for_minerals := True\<rparr>))"
  using assms by (simp add: production_entity_def)


text \<open>
  C1 fails on the code at the spawn of a produced unit. On the 3 by 3 map with a rock
  on tile (1, 2), a base at (1, 0) that completes a worker places it at
  \<open>(x + offset, y + 2) = (1, 2)\<close>, with no walkability test: after
  \<^verbatim>\<open>ProductionSystem.update\<close> a living worker stands on the rock, although every
  entity stood on a walkable tile before. No later system of the tick writes a position.
\<close>

theorem production_spawns_on_rock:
  "is_walkable rock_map \<lfloor>1 :: real\<rfloor> \<lfloor>0 :: real\<rfloor> \<and>
   \<not> is_walkable rock_map \<lfloor>1 :: real\<rfloor> \<lfloor>2 :: real\<rfloor> \<and>
   (\<exists>ps' w'.
      production_update demo_stats (1/30)
        (\<lambda>_. \<lparr>spawn_offset = 0, unit_name = ''Ada'', unit_rank = ''Pvt''\<rparr>)
        (\<lparr>ps_waiting_for_minerals = Map.empty\<rparr>,
         World_init\<lparr>game_map := Some rock_map,
           entities := [(new_entity Base 1 1 (1, 0) 500)
              \<lparr>production_queue := [''Worker''], production_progress := 999/1000, build_time := 8\<rparr>],
           next_id := 2\<rparr>) = Inr (ps', w') \<and>
      map (\<lambda>e. (ent_id e, kind e, alive e, pos_x e, pos_y e)) (entities w') =
        [(1, Base, True, 1, 0), (2, Worker, True, 1, 2)])"
  by (simp add: production_update_def production_entity_def progress_item_def complete_item_def
      complete_production_def spawn_entity_def create_entity_def new_entity_def after_spawn_def
      unit_ready_def publish_def upd_def get_entity_def dict_set_def get_nearest_mineral_def
      is_building_def World_init_def demo_stats_def rock_map_def is_walkable_def pos_def Let_def)


subsection \<open>Gathering\<close>

lemma sqrt_le_if: "0 \<le> c \<Longrightarrow> x \<le> c * c \<Longrightarrow> sqrt x \<le> c"
  by (rule real_le_lsqrt) (simp_all add: power2_eq_square)

lemma process_worker_moving:
  assumes "get_entity w i = Some e" and "kind e = Worker" and "alive e"
    and "state e = ''moving_to_mineral''"
    and "gather_target e = Some pid" and "get_patch w pid = Some m"
    and "get_base w (team e) = Some base"
  shows "process_worker dt i (rs, w) = Inr (worker_moving rs w e (Some m))"
  using assms by (simp add: process_worker_def gather_patch_def)

text \<open>
  C5, as the code has it. For a living worker in state \<^verbatim>\<open>moving_to_mineral\<close> whose
  gather target is not depleted: if the worker's team has no living base, the
  resource system leaves the worker, the timers and the event log untouched; if it
  has one, the worker goes to state \<^verbatim>\<open>gathering\<close> exactly when
  \<open>dx * dx + dy * dy < 1.5\<close>, the squared distance to the patch (a distance below
  \<open>sqrt 1.5\<close>, about 1.22 tiles), and then its destination is cleared, its gather timer
  is set to 0 and a GatheringStartedEvent is published; otherwise nothing changes.
\<close>

theorem gathering_starts_below_squared_threshold:
  assumes "get_entity w i = Some e" and "kind e = Worker" and "alive e"
    and "state e = ''moving_to_mineral''"
    and "gather_target e = Some pid" and "get_patch w pid = Some m" and "\<not> depleted m"
  shows "(get_base w (team e) = None \<longrightarrow> process_worker dt i (rs, w) = Inr (rs, w)) \<and>
         (get_base w (team e) \<noteq> None \<longrightarrow>
            process_worker dt i (rs, w) =
              (if (patch_x m - pos_x e) * (patch_x m - pos_x e) +
                  (patch_y m - pos_y e) * (patch_y m - pos_y e) < 3/2
               then Inr (rs\<lparr>gather_timers := (gather_timers rs)(ent_id e \<mapsto> 0)\<rparr>,
                         publish (upd w (ent_id e) (\<lambda>e. e\<lparr>state := ''gathering'', destination := None\<rparr>))
                                 (GatheringStartedEvent (ent_id e) (team e)))
               else Inr (rs, w)))"
proof (intro conjI impI)
  assume "get_base w (team e) = None"
  then show "process_worker dt i (rs, w) = Inr (rs, w)"
    using assms by (simp add: process_worker_def)
next
  assume "get_base w (team e) \<noteq> None"
  then obtain base where "get_base w (team e) = Some base" by blast
  then have "process_worker dt i (rs, w) = Inr (worker_moving rs w e (Some m))"
    using assms by (simp add: process_worker_moving)
  then show "process_worker dt i (rs, w) =
              (if (patch_x m - pos_x e) * (patch_x m - pos_x e) +
                  (patch_y m - pos_y e) * (patch_y m - pos_y e) < 3/2
               then Inr (rs\<lparr>gather_timers := (gather_timers rs)(ent_id e \<mapsto> 0)\<rparr>,
                         publish (upd w (ent_id e) (\<lambda>e. e\<lparr>state := ''gathering'', destination := None\<rparr>))
                                 (GatheringStartedEvent (ent_id e) (team e)))
               else Inr (rs, w))"
    using assms(7) by (simp add: worker_moving_def Let_def)
qed


lemma gather_scene_facts:
  "get_entity (gather_scene px) 2 =
     Some ((new_entity Worker 2 1 (0, 0) 50)
        \<lparr>state := ''moving_to_mineral'', gather_target := Some 10, destination := Some (px, 0)\<rparr>)"
  "get_patch (gather_scene px) 10 = Some \<lparr>patch_id = 10, patch_x = px, patch_y = 0, minerals = 1500\<rparr>"
  "get_base (gather_scene px) 1 = Some (new_entity Base 1 1 (0, 1) 500)"
  by (simp_all add: gather_scene_def World_init_def get_entity_def get_patch_def get_base_def
      new_entity_def)

text \<open>The theorem in the scene with the patch one tile away: the worker starts gathering.\<close>

theorem gathering_starts_below_squared_threshold_witness:
  "process_worker (1/30) 2 (\<lparr>gather_timers = Map.empty\<rparr>, gather_scene 1) =
     Inr (\<lparr>gather_timers = [2 \<mapsto> 0]\<rparr>,
          publish (upd (gather_scene 1) 2 (\<lambda>e. e\<lparr>state := ''gathering'', destination := None\<rparr>))
                  (GatheringStartedEvent 2 1))"
  using gathering_starts_below_squared_threshold
    [of "gather_scene 1" 2
        "(new_entity Worker 2 1 (0, 0) 50)
           \<lparr>state := ''moving_to_mineral'', gather_target := Some 10, destination := Some (1, 0)\<rparr>"
        10 "\<lparr>patch_id = 10, patch_x = 1, patch_y = 0, minerals = 1500\<rparr>"
        "1/30" "\<lparr>gather_timers = Map.empty\<rparr>"]
  by (simp add: gather_scene_facts depleted_def new_entity_def)

text \<open>
  The claim as stated fails: with the patch 1.4 tiles away (within 1.5 tiles) and a
  living base, the worker stays in \<^verbatim>\<open>moving_to_mineral\<close>; nothing changes and no event
  is published.
\<close>

theorem gathering_distance_counterexample:
  "sqrt ((7/5 - 0) * (7/5 - 0) + (0 - 0) * (0 - 0)) \<le> (1.5 :: real) \<and>
   get_base (gather_scene (7/5)) 1 \<noteq> None \<and>
   process_worker (1/30) 2 (\<lparr>gather_timers = Map.empty\<rparr>, gather_scene (7/5)) =
     Inr (\<lparr>gather_timers = Map.empty\<rparr>, gather_scene (7/5))"
proof -
  have "sqrt ((7/5 - 0) * (7/5 - 0) + (0 - 0) * (0 - 0)) \<le> (1.5 :: real)"
    by (rule sqrt_le_if) simp_all
  moreover have "process_worker (1/30) 2 (\<lparr>gather_timers = Map.empty\<rparr>, gather_scene (7/5)) =
     Inr (\<lparr>gather_timers = Map.empty\<rparr>, gather_scene (7/5))"
    by (simp add: process_worker_def gather_scene_facts gather_patch_def worker_moving_def
        depleted_def new_entity_def Let_def)
  ultimately show ?thesis
    by (simp add: gather_scene_facts)
qed


subsection \<open>Mineral totals\<close>

lemma fold_err_invariant:
  assumes "\<And>a s s'. P s \<Longrightarrow> f a s = Inr s' \<Longrightarrow> P s'"
    and "P s" and "fold_err f xs s = Inr s'"
  shows "P s'"
  using assms(2,3)
proof (induction xs arbitrary: s)
  case Nil
  then show ?case by simp
next
  case (Cons a xs)
  then obtain s1 where s1: "f a s = Inr s1" and rest: "fold_err f xs s1 = Inr s'"
    by (auto split: sum.splits)
  have "P s1" using Cons.prems(1) s1 by (rule assms(1))
  then show ?case using rest by (rule Cons.IH)
qed

lemma econ_inv_publish: "econ_inv (publish w ev) = econ_inv w"
  by (simp add: econ_inv_def minerals_nonneg_def carrying_nonneg_def publish_def)

lemma econ_inv_upd:
  assumes "econ_inv w" and "\<And>e. 0 \<le> carrying e \<Longrightarrow> 0 \<le> carrying (f e)"
  shows "econ_inv (upd w i f)"
  using assms by (auto simp: econ_inv_def minerals_nonneg_def carrying_nonneg_def upd_def)

lemma econ_inv_upd_patch: "econ_inv (upd_patch w i f) = econ_inv w"
  by (simp add: econ_inv_def minerals_nonneg_def carrying_nonneg_def upd_patch_def)

lemma econ_inv_minerals:
  assumes "econ_inv w" and "0 \<le> m'"
  shows "econ_inv (w\<lparr>team_minerals := (team_minerals w)(t \<mapsto> m')\<rparr>)"
  using assms by (auto simp: econ_inv_def minerals_nonneg_def carrying_nonneg_def)

lemma create_entity_carrying:
  "create_entity cfg knd i t p = Inr e \<Longrightarrow> carrying e = 0"
  by (auto simp: create_entity_def new_entity_def split: if_splits option.splits)

lemma set_dict_set: "set (dict_set es e) \<subseteq> insert e (set es)"
  by (auto simp: dict_set_def)

lemma econ_inv_spawn:
  assumes "econ_inv w" and "spawn_entity cfg w knd t p = Inr (w', e)"
  shows "econ_inv w'"
proof -
  from assms(2) have ce: "create_entity cfg knd (next_id w) t p = Inr e"
    and w': "w' = publish (w\<lparr>entities := dict_set (entities w) e, next_id := next_id w + 1\<rparr>)
                     (SpawnEvent knd (ent_id e) t p)"
    by (auto simp: spawn_entity_def split: sum.splits)
  have "carrying e = 0" using ce by (rule create_entity_carrying)
  then have "\<forall>x \<in> set (dict_set (entities w) e). 0 \<le> carrying x"
    using assms(1) set_dict_set [of "entities w" e]
    by (auto simp: econ_inv_def carrying_nonneg_def)
  then show ?thesis
    using assms(1) unfolding w' econ_inv_publish
    by (simp add: econ_inv_def minerals_nonneg_def carrying_nonneg_def)
qed

lemma team_minerals_upd: "team_minerals (upd w i f) = team_minerals w"
  by (simp add: upd_def)

lemma team_minerals_publish: "team_minerals (publish w ev) = team_minerals w"
  by (simp add: publish_def)

lemma team_minerals_spawn:
  "spawn_entity cfg w knd t p = Inr (w', e) \<Longrightarrow> team_minerals w' = team_minerals w"
  by (auto simp: spawn_entity_def publish_def split: sum.splits)

text \<open>Production.\<close>

lemma after_spawn_econ:
  "econ_inv w \<Longrightarrow> econ_inv (after_spawn w b u)"
  by (auto simp: after_spawn_def Let_def intro!: econ_inv_upd split: option.splits)

lemma after_spawn_minerals: "team_minerals (after_spawn w b u) = team_minerals w"
  by (simp add: after_spawn_def Let_def team_minerals_upd split: option.splits)

lemma unit_ready_econ: "econ_inv (unit_ready w d ct b u) = econ_inv w"
  by (simp add: unit_ready_def econ_inv_publish)

lemma unit_ready_minerals: "team_minerals (unit_ready w d ct b u) = team_minerals w"
  by (simp add: unit_ready_def team_minerals_publish)

lemma complete_production_carrying: "carrying (fst (complete_production e)) = carrying e"
  by (simp add: complete_production_def split: list.splits)

lemma complete_item_econ:
  assumes "econ_inv w" and "complete_item cfg d w b = Inr w'"
  shows "econ_inv w' \<and> team_minerals w' = team_minerals w"
proof (cases "complete_production b")
  case (Pair b1 r)
  show ?thesis
  proof (cases r)
    case None
    with Pair assms show ?thesis by (simp add: complete_item_def)
  next
    case (Some ct)
    let ?w1 = "upd w (ent_id b) (\<lambda>e. fst (complete_production e))"
    from assms(2) Pair Some obtain w2 u where
      sp: "spawn_entity cfg ?w1 ct (team b) (pos_x b + spawn_offset d, pos_y b + 2) = Inr (w2, u)"
      and w': "w' = after_spawn (unit_ready (publish w2 (ProductionCompletedEvent (ent_id b) ct
                       (ent_id u) (team b) (pos u))) d ct b u) b u"
      by (auto simp: complete_item_def Let_def split: sum.splits)
    have "econ_inv ?w1"
      using assms(1) by (rule econ_inv_upd) (simp add: complete_production_carrying)
    then have "econ_inv w2" using sp by (rule econ_inv_spawn)
    moreover have "team_minerals w2 = team_minerals w"
      using team_minerals_spawn [OF sp] by (simp add: team_minerals_upd)
    ultimately show ?thesis
      unfolding w'
      by (simp add: after_spawn_econ unit_ready_econ econ_inv_publish after_spawn_minerals
          unit_ready_minerals team_minerals_publish)
  qed
qed

lemma progress_item_econ:
  assumes "econ_inv w" and "progress_item cfg dt d w i = Inr w'"
  shows "econ_inv w' \<and> team_minerals w' = team_minerals w"
proof (cases "get_entity w i")
  case None
  with assms show ?thesis by (simp add: progress_item_def)
next
  case (Some b)
  let ?w1 = "upd w i (\<lambda>e. e\<lparr>production_progress := production_progress e + dt / build_time e\<rparr>)"
  have inv1: "econ_inv ?w1" using assms(1) by (rule econ_inv_upd) simp
  have tm1: "team_minerals ?w1 = team_minerals w" by (rule team_minerals_upd)
  from assms(2) Some have nz: "build_time b \<noteq> 0"
    by (auto simp: progress_item_def split: if_splits)
  show ?thesis
  proof (cases "get_entity ?w1 i")
    case None
    with assms(2) Some nz have "w' = ?w1" by (simp add: progress_item_def Let_def)
    with inv1 tm1 show ?thesis by simp
  next
    case (Some b1)
    show ?thesis
    proof (cases "production_progress b1 \<ge> 1")
      case True
      with assms(2) \<open>get_entity w i = Some b\<close> Some nz
      have "complete_item cfg d ?w1 b1 = Inr w'" by (simp add: progress_item_def Let_def)
      with inv1 tm1 complete_item_econ [of ?w1 cfg d b1 w'] show ?thesis by simp
    next
      case False
      with assms(2) \<open>get_entity w i = Some b\<close> Some nz
      have "w' = ?w1" by (simp add: progress_item_def Let_def)
      with inv1 tm1 show ?thesis by simp
    qed
  qed
qed

lemma production_entity_econ:
  assumes "econ_inv w" and "production_entity cfg dt draws i w = Inr w'"
  shows "econ_inv w' \<and> (team_minerals w' = team_minerals w \<or> production_deduction cfg w i w')"
proof (cases "get_entity w i")
  case None
  with assms show ?thesis by (simp add: production_entity_def)
next
  case (Some b)
  let ?wf = "upd w i (\<lambda>e. e\<lparr>waiting_for_minerals := False\<rparr>)"
  let ?wt = "upd w i (\<lambda>e. e\<lparr>waiting_for_minerals := True\<rparr>)"
  have invf: "econ_inv ?wf" and invt: "econ_inv ?wt"
    using assms(1) by (auto intro!: econ_inv_upd)
  consider (skip) "\<not> is_building b \<or> \<not> alive b"
    | (empty) "is_building b" "alive b" "production_queue b = []"
    | (item) "is_building b" "alive b" "production_queue b \<noteq> []"
    by blast
  then show ?thesis
  proof cases
    case skip
    with assms Some show ?thesis by (auto simp: production_entity_def)
  next
    case empty
    with assms(2) Some have "w' = ?wf" by (simp add: production_entity_def)
    with invf show ?thesis by (simp add: team_minerals_upd)
  next
    case item
    from assms(2) Some item obtain st where st: "UNIT_STATS cfg (hd (production_queue b)) = Some st"
      by (auto simp: production_entity_def split: option.splits)
    show ?thesis
    proof (cases "production_progress b = 0")
      case False
      with assms(2) Some item st have "progress_item cfg dt (draws i) ?wf i = Inr w'"
        by (simp add: production_entity_def)
      with invf progress_item_econ [of ?wf cfg dt "draws i" i w'] show ?thesis
        by (simp add: team_minerals_upd)
    next
      case True
      from assms(2) Some item st True obtain m where m: "team_minerals w (team b) = Some m"
        by (auto simp: production_entity_def split: option.splits)
      show ?thesis
      proof (cases "m < st_cost st")
        case True
        with assms(2) Some item st \<open>production_progress b = 0\<close> m have "w' = ?wt"
          by (simp add: production_entity_def)
        with invt show ?thesis by (simp add: team_minerals_upd)
      next
        case False
        let ?w1 = "publish (?wf\<lparr>team_minerals := (team_minerals w)(team b \<mapsto> m - st_cost st)\<rparr>)
                     (ProductionStartedEvent (ent_id b) (hd (production_queue b)) (team b)
                        (length (production_queue b)))"
        have pi: "progress_item cfg dt (draws i) ?w1 i = Inr w'"
          using assms(2) Some item st \<open>production_progress b = 0\<close> m False
          by (simp add: production_entity_def)
        have "econ_inv (?wf\<lparr>team_minerals := (team_minerals ?wf)(team b \<mapsto> m - st_cost st)\<rparr>)"
          using invf False by (intro econ_inv_minerals) simp_all
        then have "econ_inv ?w1"
          by (simp add: econ_inv_publish team_minerals_upd)
        with pi progress_item_econ [of ?w1 cfg dt "draws i" i w']
        have "econ_inv w'" and "team_minerals w' = (team_minerals w)(team b \<mapsto> m - st_cost st)"
          by (simp_all add: team_minerals_publish)
        then show ?thesis
          using Some item st m False by (auto simp: production_deduction_def)
      qed
    qed
  qed
qed


text \<open>Resources.\<close>

lemma worker_idle_econ: "econ_inv w \<Longrightarrow> econ_inv (worker_idle w base e p)"
  by (auto simp: worker_idle_def intro!: econ_inv_upd split: option.splits)

lemma worker_moving_econ: "econ_inv w \<Longrightarrow> econ_inv (snd (worker_moving rs w e p))"
  by (auto simp: worker_moving_def Let_def econ_inv_publish intro!: econ_inv_upd split: option.splits)

lemma worker_gathering_econ:
  assumes "econ_inv w"
  shows "econ_inv (snd (worker_gathering dt rs w base e p))"
proof (cases p)
  case None
  then show ?thesis using assms by (auto simp: worker_gathering_def intro!: econ_inv_upd)
next
  case (Some m)
  show ?thesis
  proof (cases "depleted m")
    case True
    then show ?thesis
      using assms Some by (auto simp: worker_gathering_def econ_inv_publish intro!: econ_inv_upd)
  next
    case False
    then have "0 \<le> min GATHER_AMOUNT (minerals m)"
      by (simp add: depleted_def GATHER_AMOUNT_def)
    then show ?thesis
      using assms Some False
      by (auto simp: worker_gathering_def Let_def econ_inv_upd_patch intro!: econ_inv_upd)
  qed
qed

lemma get_entity_member: "get_entity w i = Some e \<Longrightarrow> e \<in> set (entities w)"
  unfolding get_entity_def find_Some_iff by auto

lemma worker_returning_econ:
  assumes "econ_inv w" and "0 \<le> carrying e" and "worker_returning w base e p = Inr w'"
  shows "econ_inv w'"
proof (cases "(pos_x base - pos_x e) * (pos_x base - pos_x e) +
              (pos_y base - pos_y e) * (pos_y base - pos_y e) < 2")
  case False
  with assms show ?thesis by (simp add: worker_returning_def Let_def)
next
  case True
  with assms(3) obtain tot where tot: "team_minerals w (team e) = Some tot"
    by (auto simp: worker_returning_def Let_def split: option.splits)
  let ?w1 = "publish (w\<lparr>team_minerals := (team_minerals w)(team e \<mapsto> tot + carrying e)\<rparr>)
               (ResourceCollectedEvent (ent_id e) (team e) (carrying e) (tot + carrying e))"
  let ?w2 = "upd ?w1 (ent_id e) (\<lambda>e. e\<lparr>carrying := 0\<rparr>)"
  have "0 \<le> tot" using assms(1) tot by (auto simp: econ_inv_def minerals_nonneg_def)
  then have "econ_inv (w\<lparr>team_minerals := (team_minerals w)(team e \<mapsto> tot + carrying e)\<rparr>)"
    using assms(1,2) by (intro econ_inv_minerals) simp_all
  then have "econ_inv ?w1" by (simp add: econ_inv_publish)
  then have inv2: "econ_inv ?w2" by (rule econ_inv_upd) simp
  show ?thesis
  proof (cases p)
    case None
    with assms(3) True tot have "w' = upd ?w2 (ent_id e) (\<lambda>e. e\<lparr>state := ''idle''\<rparr>)"
      by (simp add: worker_returning_def Let_def)
    with inv2 show ?thesis by (auto intro!: econ_inv_upd)
  next
    case (Some m)
    show ?thesis
    proof (cases "depleted m")
      case False
      with assms(3) True tot Some
      have "w' = upd ?w2 (ent_id e)
                   (\<lambda>e. e\<lparr>state := ''moving_to_mineral'', destination := Some (patch_pos m)\<rparr>)"
        by (simp add: worker_returning_def Let_def)
      with inv2 show ?thesis by (auto intro!: econ_inv_upd)
    next
      case dep: True
      with assms(3) True tot Some
      have "w' = upd (publish (upd ?w2 (ent_id e) (\<lambda>e. e\<lparr>gather_target := None\<rparr>))
                        (MineDepletedEvent (ent_id e) (team e) (patch_pos m)))
                   (ent_id e) (\<lambda>e. e\<lparr>state := ''idle''\<rparr>)"
        by (simp add: worker_returning_def Let_def)
      moreover have "econ_inv (upd ?w2 (ent_id e) (\<lambda>e. e\<lparr>gather_target := None\<rparr>))"
        using inv2 by (rule econ_inv_upd) simp
      ultimately show ?thesis
        by (auto simp: econ_inv_publish intro!: econ_inv_upd)
    qed
  qed
qed

lemma process_worker_econ:
  assumes "econ_inv (snd s)" and "process_worker dt i s = Inr s'"
  shows "econ_inv (snd s')"
proof (cases "get_entity (snd s) i")
  case None
  with assms show ?thesis by (simp add: process_worker_def Let_def)
next
  case (Some e)
  have carr: "0 \<le> carrying e"
    using assms(1) get_entity_member [OF Some] by (auto simp: econ_inv_def carrying_nonneg_def)
  show ?thesis
  proof (cases "kind e \<noteq> Worker \<or> \<not> alive e")
    case True
    with assms Some show ?thesis by (auto simp: process_worker_def Let_def)
  next
    case live: False
    show ?thesis
    proof (cases "get_base (snd s) (team e)")
      case None
      with assms Some live show ?thesis by (auto simp: process_worker_def Let_def)
    next
      case (Some base)
      from assms(2) \<open>get_entity (snd s) i = Some e\<close> live Some
      obtain p where p: "gather_patch (snd s) e = Inr p"
        by (auto simp: process_worker_def Let_def split: sum.splits)
      consider (idle) "state e = ''idle''"
        | (moving) "state e = ''moving_to_mineral''"
        | (gathering) "state e = ''gathering''"
        | (returning) "state e = ''returning''"
        | (other) "state e \<noteq> ''idle''" "state e \<noteq> ''moving_to_mineral''"
                  "state e \<noteq> ''gathering''" "state e \<noteq> ''returning''"
        by blast
      then show ?thesis
      proof cases
        case idle
        with assms(2) \<open>get_entity (snd s) i = Some e\<close> live Some p
        have "s' = (fst s, worker_idle (snd s) base e p)"
          by (auto simp: process_worker_def Let_def)
        with assms(1) show ?thesis by (simp add: worker_idle_econ)
      next
        case moving
        with assms(2) \<open>get_entity (snd s) i = Some e\<close> live Some p
        have "s' = worker_moving (fst s) (snd s) e p"
          by (auto simp: process_worker_def Let_def)
        with assms(1) show ?thesis by (simp add: worker_moving_econ)
      next
        case gathering
        with assms(2) \<open>get_entity (snd s) i = Some e\<close> live Some p
        have "s' = worker_gathering dt (fst s) (snd s) base e p"
          by (auto simp: process_worker_def Let_def)
        with assms(1) show ?thesis by (simp add: worker_gathering_econ)
      next
        case returning
        with assms(2) \<open>get_entity (snd s) i = Some e\<close> live Some p
        obtain w1 where "worker_returning (snd s) base e p = Inr w1" "s' = (fst s, w1)"
          by (auto simp: process_worker_def Let_def split: sum.splits)
        with assms(1) carr worker_returning_econ [of "snd s" e base p w1] show ?thesis by simp
      next
        case other
        with assms \<open>get_entity (snd s) i = Some e\<close> live Some p
        show ?thesis by (auto simp: process_worker_def Let_def)
      qed
    qed
  qed
qed

text \<open>Building placement.\<close>

lemma progress_build_econ:
  assumes "econ_inv w" and "bst_cost st \<le> m" and "team_minerals w (team e) = Some m"
    and "progress_build cfg dt bs w e bt bx by st m = Inr s'"
  shows "econ_inv (snd s') \<and>
         (team_minerals (snd s') = team_minerals w \<or>
          team_minerals (snd s') = (team_minerals w)(team e \<mapsto> m - bst_cost st))"
proof (cases "(case build_timers bs (ent_id e) of None \<Rightarrow> 0 | Some v \<Rightarrow> v) + dt \<ge> bst_build_time st")
  case False
  with assms show ?thesis by (auto simp: progress_build_def Let_def)
next
  case True
  let ?w0 = "w\<lparr>team_minerals := (team_minerals w)(team e \<mapsto> m - bst_cost st)\<rparr>"
  from assms(4) True obtain w1 nb where
    sp: "spawn_entity cfg ?w0 bt (team e) (bx, by) = Inr (w1, nb)"
    and s': "snd s' = upd (publish w1 (BuildingPlacedEvent (ent_id nb) bt (team e) (pos nb) (ent_id e)))
                        (ent_id e) (\<lambda>e. e\<lparr>build_target := None\<rparr>)"
    by (auto simp: progress_build_def Let_def split: sum.splits)
  have "econ_inv ?w0" using assms(1,2) by (intro econ_inv_minerals) simp_all
  then have "econ_inv w1" using sp by (rule econ_inv_spawn)
  then have "econ_inv (snd s')"
    unfolding s' by (intro econ_inv_upd) (simp_all add: econ_inv_publish)
  moreover have "team_minerals (snd s') = (team_minerals w)(team e \<mapsto> m - bst_cost st)"
    unfolding s' using team_minerals_spawn [OF sp]
    by (simp add: team_minerals_upd team_minerals_publish)
  ultimately show ?thesis by simp
qed

lemma build_at_site_econ:
  assumes "econ_inv w" and "build_at_site cfg dt bs w e bt bx by = Inr s'"
  shows "econ_inv (snd s') \<and>
         (team_minerals (snd s') = team_minerals w \<or>
          (\<exists>st m. BUILDING_STATS cfg bt = Some st \<and> team_minerals w (team e) = Some m \<and>
             bst_cost st \<le> m \<and>
             team_minerals (snd s') = (team_minerals w)(team e \<mapsto> m - bst_cost st)))"
proof -
  from assms(2) obtain st m where st: "BUILDING_STATS cfg bt = Some st"
    and m: "team_minerals w (team e) = Some m"
    by (auto simp: build_at_site_def split: option.splits)
  show ?thesis
  proof (cases "m < bst_cost st")
    case True
    let ?w1 = "upd w (ent_id e) (\<lambda>e. e\<lparr>waiting_for_minerals := True\<rparr>)"
    have "econ_inv ?w1" using assms(1) by (rule econ_inv_upd) simp
    moreover from assms(2) st m True
    have "snd s' = ?w1 \<or> snd s' = publish ?w1 (WorkerWaitingForMineralsEvent (ent_id e) (team e) bt (bst_cost st))"
      by (auto simp: build_at_site_def Let_def split: if_splits)
    ultimately show ?thesis
      by (auto simp: econ_inv_publish team_minerals_upd team_minerals_publish)
  next
    case False
    let ?w1 = "upd w (ent_id e) (\<lambda>e. e\<lparr>waiting_for_minerals := False\<rparr>)"
    let ?w2 = "if build_timers bs (ent_id e) = None
               then publish ?w1 (BuildingConstructionStartEvent (ent_id e) (team e) bt (bx, by))
               else ?w1"
    have "econ_inv ?w1" using assms(1) by (rule econ_inv_upd) simp
    then have inv2: "econ_inv ?w2" by (simp add: econ_inv_publish)
    have tm2: "team_minerals ?w2 = team_minerals w"
      by (simp add: team_minerals_upd team_minerals_publish)
    show ?thesis
    proof (cases "site_occupied ?w2 (ent_id e) bx by")
      case True
      with assms(2) st m False
      have "snd s' = upd ?w2 (ent_id e) (\<lambda>e. e\<lparr>build_target := None\<rparr>)"
        by (auto simp: build_at_site_def Let_def)
      moreover have "econ_inv (upd ?w2 (ent_id e) (\<lambda>e. e\<lparr>build_target := None\<rparr>))"
        using inv2 by (rule econ_inv_upd) simp
      ultimately show ?thesis using tm2 by (simp add: team_minerals_upd)
    next
      case free: False
      with assms(2) st m False
      have "progress_build cfg dt bs ?w2 e bt bx by st m = Inr s'"
        by (auto simp: build_at_site_def Let_def split: if_splits)
      from progress_build_econ [OF inv2 _ _ this] False m tm2
      show ?thesis using st by auto
    qed
  qed
qed

lemma building_entity_econ:
  assumes "econ_inv (snd s)" and "building_entity cfg dt i s = Inr s'"
  shows "econ_inv (snd s') \<and>
         (team_minerals (snd s') = team_minerals (snd s) \<or> building_deduction cfg (snd s) i (snd s'))"
proof (cases "get_entity (snd s) i")
  case None
  with assms show ?thesis by (simp add: building_entity_def Let_def)
next
  case (Some e)
  let ?w = "snd s"
  have upd_inv: "\<And>f. (\<And>e. carrying (f e) = carrying e) \<Longrightarrow> econ_inv (upd ?w i f)"
    using assms(1) by (auto intro!: econ_inv_upd)
  show ?thesis
  proof (cases "kind e \<noteq> Worker \<or> \<not> alive e")
    case True
    with assms Some show ?thesis by (auto simp: building_entity_def Let_def)
  next
    case live: False
    show ?thesis
    proof (cases "build_target e")
      case None
      with assms(2) Some live
      have "snd s' = upd ?w i (\<lambda>e. e\<lparr>waiting_for_minerals := False\<rparr>)"
        by (auto simp: building_entity_def Let_def)
      then show ?thesis using upd_inv by (simp add: team_minerals_upd)
    next
      case tgt: (Some t)
      obtain bt bx "by" where t: "t = (bt, bx, by)" by (cases t)
      have canc: "econ_inv (cancel_build ?w i) \<and> team_minerals (cancel_build ?w i) = team_minerals ?w"
        unfolding cancel_build_def using upd_inv by (simp add: team_minerals_upd)
      let ?site = "build_at_site cfg dt (fst s) (upd ?w i (\<lambda>e. e\<lparr>destination := None\<rparr>)) e bt bx by"
      from assms(2) Some live tgt t
      consider (cancel) "snd s' = cancel_build ?w i"
        | (walk) "snd s' = upd ?w i (\<lambda>e. e\<lparr>destination := Some (bx, by), waiting_for_minerals := False\<rparr>)"
        | (site) "?site = Inr s'"
        by (auto simp: building_entity_def Let_def split: option.splits if_splits)
      then show ?thesis
      proof cases
        case cancel
        with canc show ?thesis by simp
      next
        case walk
        then show ?thesis using upd_inv by (simp add: team_minerals_upd)
      next
        case site
        have "econ_inv (upd ?w i (\<lambda>e. e\<lparr>destination := None\<rparr>))"
          using upd_inv by simp
        from build_at_site_econ [OF this site]
        show ?thesis
          using Some tgt t by (auto simp: team_minerals_upd building_deduction_def)
      qed
    qed
  qed
qed


text \<open>
  C2. If every team's mineral total is non-negative (and no entity carries a negative
  amount), then the same holds after a whole update of the production system, of the
  building placement system and of the resource system, and after each single loop
  body of theirs. A loop body of the production system or of building placement
  either leaves the totals as they are or deducts the cost from one team's total,
  and it deducts only when that total is at least the cost.
\<close>

theorem mineral_totals_never_negative:
  assumes "minerals_nonneg w" and "carrying_nonneg w"
  shows "(production_update cfg dt draws (ps, w) = Inr (ps1, w1) \<longrightarrow>
            minerals_nonneg w1 \<and> carrying_nonneg w1) \<and>
         (building_update cfg dt (bs, w) = Inr (bs2, w2) \<longrightarrow>
            minerals_nonneg w2 \<and> carrying_nonneg w2) \<and>
         (resource_update dt (rs, w) = Inr (rs3, w3) \<longrightarrow>
            minerals_nonneg w3 \<and> carrying_nonneg w3) \<and>
         (production_entity cfg dt draws i w = Inr w4 \<longrightarrow>
            minerals_nonneg w4 \<and> carrying_nonneg w4 \<and>
            (team_minerals w4 = team_minerals w \<or> production_deduction cfg w i w4)) \<and>
         (building_entity cfg dt i (bs, w) = Inr (bs5, w5) \<longrightarrow>
            minerals_nonneg w5 \<and> carrying_nonneg w5 \<and>
            (team_minerals w5 = team_minerals w \<or> building_deduction cfg w i w5)) \<and>
         (process_worker dt i (rs, w) = Inr (rs6, w6) \<longrightarrow>
            minerals_nonneg w6 \<and> carrying_nonneg w6)"
proof -
  have inv: "econ_inv w" using assms by (simp add: econ_inv_def)
  have a: "minerals_nonneg w1 \<and> carrying_nonneg w1"
    if "production_update cfg dt draws (ps, w) = Inr (ps1, w1)"
  proof -
    from that have "fold_err (production_entity cfg dt draws) (map ent_id (entities w)) w = Inr w1"
      by (auto simp: production_update_def Let_def split: sum.splits)
    then have "econ_inv w1"
      by (rule fold_err_invariant [where P = econ_inv, rotated 2])
         (use production_entity_econ inv in blast)+
    then show ?thesis by (simp add: econ_inv_def)
  qed
  have b: "minerals_nonneg w2 \<and> carrying_nonneg w2"
    if "building_update cfg dt (bs, w) = Inr (bs2, w2)"
  proof -
    let ?s0 = "(bs\<lparr>mineral_warning_cooldown := tick_cooldowns dt (mineral_warning_cooldown bs)\<rparr>, w)"
    have "econ_inv (snd ?s0)" using inv by simp
    moreover from that
    have "fold_err (building_entity cfg dt) (map ent_id (entities w)) ?s0 = Inr (bs2, w2)"
      by (simp add: building_update_def)
    ultimately have "econ_inv (snd (bs2, w2))"
      by (rule fold_err_invariant [where P = "\<lambda>s. econ_inv (snd s)", rotated 1])
         (use building_entity_econ in blast)
    then show ?thesis by (simp add: econ_inv_def)
  qed
  have c: "minerals_nonneg w3 \<and> carrying_nonneg w3"
    if "resource_update dt (rs, w) = Inr (rs3, w3)"
  proof -
    have "econ_inv (snd (rs, w))" using inv by simp
    moreover from that
    have "fold_err (process_worker dt) (map ent_id (entities w)) (rs, w) = Inr (rs3, w3)"
      by (simp add: resource_update_def)
    ultimately have "econ_inv (snd (rs3, w3))"
      by (rule fold_err_invariant [where P = "\<lambda>s. econ_inv (snd s)", rotated 1])
         (use process_worker_econ in blast)
    then show ?thesis by (simp add: econ_inv_def)
  qed
  have d: "minerals_nonneg w4 \<and> carrying_nonneg w4 \<and>
            (team_minerals w4 = team_minerals w \<or> production_deduction cfg w i w4)"
    if "production_entity cfg dt draws i w = Inr w4"
    using production_entity_econ [OF inv that] by (simp add: econ_inv_def)
  have e: "minerals_nonneg w5 \<and> carrying_nonneg w5 \<and>
            (team_minerals w5 = team_minerals w \<or> building_deduction cfg w i w5)"
    if "building_entity cfg dt i (bs, w) = Inr (bs5, w5)"
    using building_entity_econ [of "(bs, w)" cfg dt i "(bs5, w5)"] inv that
    by (simp add: econ_inv_def)
  have f: "minerals_nonneg w6 \<and> carrying_nonneg w6"
    if "process_worker dt i (rs, w) = Inr (rs6, w6)"
    using process_worker_econ [of "(rs, w)" dt i "(rs6, w6)"] inv that
    by (simp add: econ_inv_def)
  from a b c d e f show ?thesis by blast
qed


lemma econ_scene_inv: "minerals_nonneg (econ_scene st p)" "carrying_nonneg (econ_scene st p)"
  by (auto simp: minerals_nonneg_def carrying_nonneg_def econ_scene_def World_init_def
      new_entity_def split: if_splits)

lemma econ_scene_production:
  "\<exists>w4. production_entity demo_stats (1/30)
           (\<lambda>_. \<lparr>spawn_offset = 0, unit_name = ''Ada'', unit_rank = ''Pvt''\<rparr>) 1
           (econ_scene ''idle'' (2, 2)) = Inr w4 \<and> team_minerals w4 1 = Some 150"
  by (simp add: production_entity_def progress_item_def econ_scene_def World_init_def
      new_entity_def get_entity_def upd_def publish_def is_building_def demo_stats_def Let_def)

lemma econ_scene_building:
  "\<exists>bs5 w5. building_entity demo_stats (1/30) 2
           (\<lparr>build_timers = [2 \<mapsto> 15], mineral_warning_cooldown = Map.empty\<rparr>,
            econ_scene ''idle'' (2, 2)) = Inr (bs5, w5) \<and> team_minerals w5 1 = Some 50"
  by (simp add: building_entity_def build_at_site_def progress_build_def site_occupied_def
      spawn_entity_def create_entity_def dict_set_def cancel_build_def
      econ_scene_def World_init_def new_entity_def get_entity_def upd_def publish_def
      demo_stats_def grass_map_def is_buildable_def is_walkable_def py_int_def py_range_def
      upto_rec1 Let_def)

lemma econ_scene_delivery:
  "\<exists>rs6 w6. process_worker (1/30) 2 (\<lparr>gather_timers = Map.empty\<rparr>, econ_scene ''returning'' (1, 0))
              = Inr (rs6, w6) \<and> team_minerals w6 1 = Some 208"
  by (simp add: process_worker_def worker_returning_def gather_patch_def get_base_def
      econ_scene_def World_init_def new_entity_def get_entity_def upd_def publish_def Let_def)

text \<open>
  The theorem in the scene: starting the queued worker takes team 1 from 200 to 150
  minerals, placing the barracks from 200 to 50, a delivery of 8 from 200 to 208.
\<close>

theorem mineral_totals_never_negative_witness:
  "(\<exists>w4. production_entity demo_stats (1/30)
           (\<lambda>_. \<lparr>spawn_offset = 0, unit_name = ''Ada'', unit_rank = ''Pvt''\<rparr>) 1
           (econ_scene ''idle'' (2, 2)) = Inr w4 \<and> team_minerals w4 1 = Some 150 \<and>
          minerals_nonneg w4) \<and>
   (\<exists>bs5 w5. building_entity demo_stats (1/30) 2
           (\<lparr>build_timers = [2 \<mapsto> 15], mineral_warning_cooldown = Map.empty\<rparr>,
            econ_scene ''idle'' (2, 2)) = Inr (bs5, w5) \<and> team_minerals w5 1 = Some 50 \<and>
          minerals_nonneg w5) \<and>
   (\<exists>rs6 w6. process_worker (1/30) 2 (\<lparr>gather_timers = Map.empty\<rparr>, econ_scene ''returning'' (1, 0))
              = Inr (rs6, w6) \<and> team_minerals w6 1 = Some 208 \<and> minerals_nonneg w6)"
proof (intro conjI)
  from econ_scene_production obtain w4 where
    w4: "production_entity demo_stats (1/30)
           (\<lambda>_. \<lparr>spawn_offset = 0, unit_name = ''Ada'', unit_rank = ''Pvt''\<rparr>) 1
           (econ_scene ''idle'' (2, 2)) = Inr w4" "team_minerals w4 1 = Some 150"
    by blast
  with mineral_totals_never_negative [where w = "econ_scene ''idle'' (2, 2)" and cfg = demo_stats
      and dt = "1/30" and i = 1 and ?w4.0 = w4
      and draws = "\<lambda>_. \<lparr>spawn_offset = 0, unit_name = ''Ada'', unit_rank = ''Pvt''\<rparr>",
      OF econ_scene_inv]
  show "\<exists>w4. production_entity demo_stats (1/30)
           (\<lambda>_. \<lparr>spawn_offset = 0, unit_name = ''Ada'', unit_rank = ''Pvt''\<rparr>) 1
           (econ_scene ''idle'' (2, 2)) = Inr w4 \<and> team_minerals w4 1 = Some 150 \<and>
          minerals_nonneg w4"
    by blast
next
  from econ_scene_building obtain bs5 w5 where
    w5: "building_entity demo_stats (1/30) 2
           (\<lparr>build_timers = [2 \<mapsto> 15], mineral_warning_cooldown = Map.empty\<rparr>,
            econ_scene ''idle'' (2, 2)) = Inr (bs5, w5)" "team_minerals w5 1 = Some 50"
    by blast
  with mineral_totals_never_negative [where w = "econ_scene ''idle'' (2, 2)" and cfg = demo_stats
      and dt = "1/30" and i = 2
      and bs = "\<lparr>build_timers = [2 \<mapsto> 15], mineral_warning_cooldown = Map.empty\<rparr>"
      and ?bs5.0 = bs5 and ?w5.0 = w5, OF econ_scene_inv]
  show "\<exists>bs5 w5. building_entity demo_stats (1/30) 2
           (\<lparr>build_timers = [2 \<mapsto> 15], mineral_warning_cooldown = Map.empty\<rparr>,
            econ_scene ''idle'' (2, 2)) = Inr (bs5, w5) \<and> team_minerals w5 1 = Some 50 \<and>
          minerals_nonneg w5"
    by blast
next
  from econ_scene_delivery obtain rs6 w6 where
    w6: "process_worker (1/30) 2 (\<lparr>gather_timers = Map.empty\<rparr>, econ_scene ''returning'' (1, 0))
              = Inr (rs6, w6)" "team_minerals w6 1 = Some 208"
    by blast
  with mineral_totals_never_negative [where w = "econ_scene ''returning'' (1, 0)" and dt = "1/30"
      and i = 2 and rs = "\<lparr>gather_timers = Map.empty\<rparr>" and ?rs6.0 = rs6 and ?w6.0 = w6,
      OF econ_scene_inv]
  show "\<exists>rs6 w6. process_worker (1/30) 2 (\<lparr>gather_timers = Map.empty\<rparr>, econ_scene ''returning'' (1, 0))
              = Inr (rs6, w6) \<and> team_minerals w6 1 = Some 208 \<and> minerals_nonneg w6"
    by blast
qed


subsection \<open>Insufficient minerals\<close>

lemma get_entity_id: "get_entity w j = Some b \<Longrightarrow> ent_id b = j"
  unfolding get_entity_def find_Some_iff by blast

lemma get_entity_publish: "get_entity (publish w ev) k = get_entity w k"
  by (simp add: get_entity_def publish_def)

lemma fresh_ids_publish: "fresh_ids (publish w ev) = fresh_ids w"
  by (simp add: fresh_ids_def publish_def)

lemma fresh_ids_upd:
  assumes "\<And>e. ent_id (f e) = ent_id e"
  shows "fresh_ids (upd w i f) = fresh_ids w"
proof
  assume a: "fresh_ids (upd w i f)"
  show "fresh_ids w"
    unfolding fresh_ids_def
  proof
    fix e assume e: "e \<in> set (entities w)"
    let ?g = "\<lambda>e. if ent_id e = i then f e else e"
    have "entities (upd w i f) = map ?g (entities w)" by (simp add: upd_def)
    with e have "?g e \<in> set (entities (upd w i f))" by (simp only: set_map) (rule imageI)
    with a have "ent_id (?g e) < next_id (upd w i f)" unfolding fresh_ids_def by blast
    moreover have "ent_id (?g e) = ent_id e" by (simp add: assms)
    ultimately show "ent_id e < next_id w" by (simp add: upd_def)
  qed
next
  assume "fresh_ids w"
  then show "fresh_ids (upd w i f)" by (auto simp: fresh_ids_def upd_def assms)
qed

lemma find_snoc: "find P (xs @ [y]) = (case find P xs of None \<Rightarrow> (if P y then Some y else None) | Some x \<Rightarrow> Some x)"
  by (induction xs) simp_all

lemma published_upd: "published (upd w i f) = published w"
  by (simp add: upd_def)

lemma next_id_upd: "next_id (upd w i f) = next_id w"
  by (simp add: upd_def)

lemma next_id_publish: "next_id (publish w ev) = next_id w"
  by (simp add: publish_def)

lemma create_entity_id: "create_entity cfg knd i t p = Inr e \<Longrightarrow> ent_id e = i"
  by (auto simp: create_entity_def new_entity_def split: if_splits option.splits)

lemma other_visit_refl: "fresh_ids w \<Longrightarrow> other_visit cfg i w w"
  by (simp add: other_visit_def)

lemma other_visit_trans:
  assumes "other_visit cfg i w w1" and "other_visit cfg i w1 w2"
  shows "other_visit cfg i w w2"
proof -
  from assms(1) obtain evs1 where e1: "published w1 = published w @ evs1"
    "\<forall>x \<in> set evs1. \<not> started_by i (snd x)"
    "\<forall>t m. team_minerals w t = Some m \<longrightarrow>
       team_minerals w1 t = Some (m - sum_list (map (\<lambda>x. started_cost cfg t (snd x)) evs1))"
    unfolding other_visit_def by blast
  from assms(2) obtain evs2 where e2: "published w2 = published w1 @ evs2"
    "\<forall>x \<in> set evs2. \<not> started_by i (snd x)"
    "\<forall>t m. team_minerals w1 t = Some m \<longrightarrow>
       team_minerals w2 t = Some (m - sum_list (map (\<lambda>x. started_cost cfg t (snd x)) evs2))"
    unfolding other_visit_def by blast
  have "published w2 = published w @ (evs1 @ evs2)" using e1(1) e2(1) by simp
  moreover have "\<forall>x \<in> set (evs1 @ evs2). \<not> started_by i (snd x)" using e1(2) e2(2) by auto
  moreover have "\<forall>t m. team_minerals w t = Some m \<longrightarrow>
       team_minerals w2 t = Some (m - sum_list (map (\<lambda>x. started_cost cfg t (snd x)) (evs1 @ evs2)))"
  proof (intro allI impI)
    fix t m assume "team_minerals w t = Some m"
    with e1(3) have "team_minerals w1 t = Some (m - sum_list (map (\<lambda>x. started_cost cfg t (snd x)) evs1))"
      by blast
    with e2(3) have "team_minerals w2 t = Some (m - sum_list (map (\<lambda>x. started_cost cfg t (snd x)) evs1)
        - sum_list (map (\<lambda>x. started_cost cfg t (snd x)) evs2))"
      by blast
    then show "team_minerals w2 t = Some (m - sum_list (map (\<lambda>x. started_cost cfg t (snd x)) (evs1 @ evs2)))"
      by simp
  qed
  moreover have "fresh_ids w2" "next_id w \<le> next_id w2" "get_entity w2 i = get_entity w i"
    using assms by (simp_all add: other_visit_def)
  ultimately show ?thesis unfolding other_visit_def by blast
qed

text \<open>A step that leaves the totals alone and publishes no start of an item.\<close>

lemma other_visit_quiet:
  assumes "fresh_ids w'" and "next_id w \<le> next_id w'" and "get_entity w' i = get_entity w i"
    and "team_minerals w' = team_minerals w" and "published w' = published w @ evs"
    and "\<forall>x \<in> set evs. \<forall>a b c d. snd x \<noteq> ProductionStartedEvent a b c d"
  shows "other_visit cfg i w w'"
proof -
  have z: "started_cost cfg t (snd x) = 0 \<and> \<not> started_by i (snd x)" if "x \<in> set evs" for x t
    using assms(6) that by (cases "snd x") (auto simp: started_cost_def started_by_def)
  then have "sum_list (map (\<lambda>x. started_cost cfg t (snd x)) evs) = 0" for t
    by (simp add: sum_list_0 cong: map_cong)
  with assms z show ?thesis unfolding other_visit_def by auto
qed

lemma other_visit_upd:
  assumes "fresh_ids w" and "i \<noteq> j" and "\<And>e. ent_id (f e) = ent_id e"
  shows "other_visit cfg i w (upd w j f)"
proof (rule other_visit_quiet [where evs = "[]"])
  show "fresh_ids (upd w j f)" using assms(1,3) by (simp add: fresh_ids_upd)
  show "get_entity (upd w j f) i = get_entity w i" using assms(2,3) by (simp add: get_entity_upd)
qed (simp_all add: upd_def)

lemma other_visit_publish:
  assumes "fresh_ids w" and "\<forall>a b c d. ev \<noteq> ProductionStartedEvent a b c d"
  shows "other_visit cfg i w (publish w ev)"
proof (rule other_visit_quiet [where evs = "[(game_time w, ev)]"])
  show "fresh_ids (publish w ev)" using assms(1) by (simp add: fresh_ids_publish)
qed (use assms(2) in \<open>simp_all add: publish_def get_entity_def\<close>)

lemma other_visit_spawn:
  assumes "spawn_entity cfg w knd t p = Inr (w', e)" and "fresh_ids w" and "i < next_id w"
  shows "other_visit cfg i w w' \<and> ent_id e = next_id w"
proof -
  from assms(1) have ce: "create_entity cfg knd (next_id w) t p = Inr e"
    and w': "w' = publish (w\<lparr>entities := dict_set (entities w) e, next_id := next_id w + 1\<rparr>)
                     (SpawnEvent knd (ent_id e) t p)"
    by (auto simp: spawn_entity_def split: sum.splits)
  have id: "ent_id e = next_id w" using ce by (rule create_entity_id)
  have no: "\<not> (\<exists>e' \<in> set (entities w). ent_id e' = ent_id e)"
    using assms(2) id by (auto simp: fresh_ids_def)
  then have ds: "dict_set (entities w) e = entities w @ [e]" by (simp add: dict_set_def)
  have "other_visit cfg i w w'"
  proof (rule other_visit_quiet [where evs = "[(game_time w, SpawnEvent knd (ent_id e) t p)]"])
    show "fresh_ids w'"
      using assms(2) id unfolding w' ds by (auto simp: fresh_ids_def publish_def)
    show "get_entity w' i = get_entity w i"
      using assms(3) id unfolding w' ds
      by (simp add: get_entity_def publish_def find_snoc split: option.splits)
  qed (simp_all add: w' publish_def)
  with id show ?thesis by simp
qed

lemma other_visit_unit_ready:
  assumes "fresh_ids w"
  shows "other_visit cfg i w (unit_ready w d ct b u)"
  unfolding unit_ready_def
  using assms by (auto intro!: other_visit_publish other_visit_refl)

lemma other_visit_after_spawn:
  assumes "fresh_ids w" and "i \<noteq> ent_id u"
  shows "other_visit cfg i w (after_spawn w b u)"
proof -
  let ?w1 = "case rally_point b of None \<Rightarrow> w
     | Some r \<Rightarrow> upd w (ent_id u) (\<lambda>e. e\<lparr>destination := Some r\<rparr>)"
  have 1: "other_visit cfg i w ?w1"
    using assms by (auto split: option.splits intro!: other_visit_refl other_visit_upd)
  then have f1: "fresh_ids ?w1" by (simp add: other_visit_def)
  have "other_visit cfg i ?w1 (after_spawn w b u)"
    unfolding after_spawn_def Let_def
    using f1 assms(2) by (auto split: option.splits intro!: other_visit_refl other_visit_upd)
  with 1 show ?thesis by (rule other_visit_trans)
qed

lemma complete_item_other:
  assumes "complete_item cfg d w b = Inr w'" and "fresh_ids w" and "i \<noteq> ent_id b"
    and "i < next_id w"
  shows "other_visit cfg i w w'"
proof (cases "complete_production b")
  case (Pair b1 r)
  show ?thesis
  proof (cases r)
    case None
    with Pair assms show ?thesis by (simp add: complete_item_def other_visit_refl)
  next
    case (Some ct)
    let ?w1 = "upd w (ent_id b) (\<lambda>e. fst (complete_production e))"
    from assms(1) Pair Some obtain w2 u where
      sp: "spawn_entity cfg ?w1 ct (team b) (pos_x b + spawn_offset d, pos_y b + 2) = Inr (w2, u)"
      and w': "w' = after_spawn (unit_ready (publish w2 (ProductionCompletedEvent (ent_id b) ct
                       (ent_id u) (team b) (pos u))) d ct b u) b u"
      by (auto simp: complete_item_def Let_def split: sum.splits)
    let ?w3 = "publish w2 (ProductionCompletedEvent (ent_id b) ct (ent_id u) (team b) (pos u))"
    let ?w4 = "unit_ready ?w3 d ct b u"
    have idp: "ent_id (fst (complete_production e)) = ent_id e" for e
      by (simp add: complete_production_def split: list.splits)
    have 1: "other_visit cfg i w ?w1"
      using assms(2,3) idp by (rule other_visit_upd)
    then have f1: "fresh_ids ?w1" by (simp add: other_visit_def)
    have n1: "i < next_id ?w1" using assms(4) by (simp add: next_id_upd)
    from other_visit_spawn [OF sp f1 n1]
    have 2: "other_visit cfg i ?w1 w2" and idu: "ent_id u = next_id w"
      by (simp_all add: next_id_upd)
    then have f2: "fresh_ids w2" by (simp add: other_visit_def)
    have 3: "other_visit cfg i w2 ?w3" using f2 by (rule other_visit_publish) simp
    then have f3: "fresh_ids ?w3" by (simp add: other_visit_def)
    have 4: "other_visit cfg i ?w3 ?w4" using f3 by (rule other_visit_unit_ready)
    then have f4: "fresh_ids ?w4" by (simp add: other_visit_def)
    have "i \<noteq> ent_id u" using idu assms(4) by simp
    with f4 have 5: "other_visit cfg i ?w4 w'" unfolding w' by (rule other_visit_after_spawn)
    from 1 2 3 4 5 show ?thesis by (blast intro: other_visit_trans)
  qed
qed

lemma progress_item_other:
  assumes "progress_item cfg dt d w j = Inr w'" and "fresh_ids w" and "i \<noteq> j"
    and "i < next_id w"
  shows "other_visit cfg i w w'"
proof (cases "get_entity w j")
  case None
  with assms show ?thesis by (simp add: progress_item_def other_visit_refl)
next
  case (Some b)
  let ?w1 = "upd w j (\<lambda>e. e\<lparr>production_progress := production_progress e + dt / build_time e\<rparr>)"
  have 1: "other_visit cfg i w ?w1" using assms(2,3) by (rule other_visit_upd) simp
  then have f1: "fresh_ids ?w1" by (simp add: other_visit_def)
  from assms(1) Some have nz: "build_time b \<noteq> 0"
    by (auto simp: progress_item_def split: if_splits)
  show ?thesis
  proof (cases "get_entity ?w1 j")
    case None
    with assms(1) Some nz have "w' = ?w1" by (simp add: progress_item_def Let_def)
    with 1 show ?thesis by simp
  next
    case b1: (Some b1)
    show ?thesis
    proof (cases "production_progress b1 \<ge> 1")
      case True
      with assms(1) Some b1 nz
      have ci: "complete_item cfg d ?w1 b1 = Inr w'" by (simp add: progress_item_def Let_def)
      have "ent_id b1 = j" using b1 by (rule get_entity_id)
      with assms(3,4) have "i \<noteq> ent_id b1" "i < next_id ?w1" by (simp_all add: next_id_upd)
      with ci f1 have "other_visit cfg i ?w1 w'" by (rule complete_item_other)
      with 1 show ?thesis by (rule other_visit_trans)
    next
      case False
      with assms(1) Some b1 nz have "w' = ?w1" by (simp add: progress_item_def Let_def)
      with 1 show ?thesis by simp
    qed
  qed
qed

lemma production_entity_other:
  assumes "production_entity cfg dt draws j w = Inr w'" and "fresh_ids w" and "i \<noteq> j"
    and "i < next_id w"
  shows "other_visit cfg i w w'"
proof (cases "get_entity w j")
  case None
  with assms show ?thesis by (simp add: production_entity_def other_visit_refl)
next
  case (Some b)
  let ?wf = "upd w j (\<lambda>e. e\<lparr>waiting_for_minerals := False\<rparr>)"
  let ?wt = "upd w j (\<lambda>e. e\<lparr>waiting_for_minerals := True\<rparr>)"
  have ovf: "other_visit cfg i w ?wf" and ovt: "other_visit cfg i w ?wt"
    using assms(2,3) by (auto intro!: other_visit_upd)
  have idb: "ent_id b = j" using Some by (rule get_entity_id)
  consider (skip) "\<not> is_building b \<or> \<not> alive b"
    | (empty) "is_building b" "alive b" "production_queue b = []"
    | (item) "is_building b" "alive b" "production_queue b \<noteq> []"
    by blast
  then show ?thesis
  proof cases
    case skip
    with assms Some show ?thesis by (auto simp: production_entity_def other_visit_refl)
  next
    case empty
    with assms(1) Some have "w' = ?wf" by (simp add: production_entity_def)
    with ovf show ?thesis by simp
  next
    case item
    from assms(1) Some item obtain st where st: "UNIT_STATS cfg (hd (production_queue b)) = Some st"
      by (auto simp: production_entity_def split: option.splits)
    show ?thesis
    proof (cases "production_progress b = 0")
      case False
      with assms(1) Some item st have pi: "progress_item cfg dt (draws j) ?wf j = Inr w'"
        by (simp add: production_entity_def)
      have "fresh_ids ?wf" "i < next_id ?wf"
        using ovf assms(4) by (simp_all add: other_visit_def next_id_upd)
      with pi have "other_visit cfg i ?wf w'" using assms(3) by (intro progress_item_other)
      with ovf show ?thesis by (rule other_visit_trans)
    next
      case True
      from assms(1) Some item st True obtain m where m: "team_minerals w (team b) = Some m"
        by (auto simp: production_entity_def split: option.splits)
      show ?thesis
      proof (cases "m < st_cost st")
        case True
        with assms(1) Some item st \<open>production_progress b = 0\<close> m have "w' = ?wt"
          by (simp add: production_entity_def)
        with ovt show ?thesis by simp
      next
        case False
        let ?ev = "ProductionStartedEvent (ent_id b) (hd (production_queue b)) (team b)
                        (length (production_queue b))"
        let ?w1 = "publish (?wf\<lparr>team_minerals := (team_minerals w)(team b \<mapsto> m - st_cost st)\<rparr>) ?ev"
        have pi: "progress_item cfg dt (draws j) ?w1 j = Inr w'"
          using assms(1) Some item st \<open>production_progress b = 0\<close> m False
          by (simp add: production_entity_def)
        have f1: "fresh_ids ?w1"
          using ovf by (simp add: other_visit_def fresh_ids_def publish_def)
        have n1: "next_id ?w1 = next_id w" by (simp add: publish_def upd_def)
        have g1: "get_entity ?w1 i = get_entity w i"
          using ovf by (simp add: other_visit_def get_entity_def publish_def)
        have p1: "published ?w1 = published w @ [(game_time w, ?ev)]"
          by (simp add: publish_def upd_def)
        have s1: "\<not> started_by i ?ev" using idb assms(3) by (simp add: started_by_def)
        have a1: "team_minerals ?w1 t = Some (m0 - started_cost cfg t ?ev)"
          if "team_minerals w t = Some m0" for t m0
          using that m st by (auto simp: publish_def upd_def started_cost_def)
        have 1: "other_visit cfg i w ?w1"
          unfolding other_visit_def
        proof (intro conjI exI [of _ "[(game_time w, ?ev)]"])
          show "\<forall>t m. team_minerals w t = Some m \<longrightarrow>
            team_minerals ?w1 t =
              Some (m - sum_list (map (\<lambda>x. started_cost cfg t (snd x)) [(game_time w, ?ev)]))"
            using a1 by simp
        qed (use f1 n1 g1 p1 s1 in simp_all)
        have "i < next_id ?w1" using n1 assms(4) by simp
        with pi f1 have "other_visit cfg i ?w1 w'" using assms(3) by (intro progress_item_other)
        with 1 show ?thesis by (rule other_visit_trans)
      qed
    qed
  qed
qed

lemma fold_production_other:
  assumes "fold_err (production_entity cfg dt draws) xs w = Inr w'" and "fresh_ids w"
    and "i \<notin> set xs" and "i < next_id w"
  shows "other_visit cfg i w w'"
  using assms
proof (induction xs arbitrary: w)
  case Nil
  then show ?case by (simp add: other_visit_refl)
next
  case (Cons j xs)
  from Cons.prems(1) obtain w1 where s1: "production_entity cfg dt draws j w = Inr w1"
    and rest: "fold_err (production_entity cfg dt draws) xs w1 = Inr w'"
    by (auto split: sum.splits)
  have 1: "other_visit cfg i w w1"
    using s1 Cons.prems(2) _ Cons.prems(4) by (rule production_entity_other) (use Cons.prems(3) in simp)
  then have "fresh_ids w1" "i < next_id w1"
    using Cons.prems(4) by (simp_all add: other_visit_def)
  with rest have "other_visit cfg i w1 w'"
    using Cons.prems(3) by (intro Cons.IH) simp_all
  with 1 show ?case by (rule other_visit_trans)
qed

lemma fold_err_append:
  "fold_err f (xs @ ys) s = (case fold_err f xs s of Inl err \<Rightarrow> Inl err | Inr s1 \<Rightarrow> fold_err f ys s1)"
  by (induction xs arbitrary: s) (simp_all split: sum.splits)

lemma started_cost_nonneg:
  assumes "\<forall>ut s. UNIT_STATS cfg ut = Some s \<longrightarrow> 0 \<le> st_cost s"
  shows "0 \<le> started_cost cfg t ev"
  using assms by (cases ev) (auto simp: started_cost_def split: option.splits)

text \<open>An entity that is not a living building is passed over.\<close>

lemma fold_production_skip:
  assumes "\<forall>j \<in> set xs. \<forall>e. get_entity w j = Some e \<longrightarrow> \<not> (is_building e \<and> alive e)"
  shows "fold_err (production_entity cfg dt draws) xs w = Inr w"
  using assms
proof (induction xs)
  case Nil
  then show ?case by simp
next
  case (Cons j xs)
  have "production_entity cfg dt draws j w = Inr w"
    using Cons.prems by (cases "get_entity w j") (auto simp: production_entity_def)
  with Cons show ?case by simp
qed

text \<open>
  C4, as the code has it. A living building with progress 0 whose queue head costs
  more than its team's mineral total, in a world whose entity table has one entry per
  id, all below the id counter, and a stat table without negative costs. Whenever
  \<^verbatim>\<open>ProductionSystem.update\<close> returns, whatever the other entities of the table do in
  that update: the building is as before but for \<^verbatim>\<open>waiting_for_minerals\<close>, which is
  true (so its queue is unchanged and its progress still 0); none of the events the
  update has published is a ProductionStartedEvent of this building; and the team's
  total has gone down by exactly the costs of the starts that the published
  ProductionStartedEvents of other buildings of the team announce, so nothing was
  deducted for this building. If no other entity of the table is a living building,
  the update does return, and the world it leaves is the world before with that one
  flag set: no total has changed and no event was published.
\<close>

theorem insufficient_minerals_update_only_waits:
  assumes "distinct (map ent_id (entities w))"
    and "\<forall>e \<in> set (entities w). ent_id e < next_id w"
    and "\<forall>ut s. UNIT_STATS cfg ut = Some s \<longrightarrow> 0 \<le> st_cost s"
    and "get_entity w i = Some b" and "is_building b" and "alive b"
    and "production_queue b = u # rest" and "production_progress b = 0"
    and "UNIT_STATS cfg u = Some st" and "team_minerals w (team b) = Some m" and "m < st_cost st"
  shows "(\<forall>ps' w'. production_update cfg dt draws (ps, w) = Inr (ps', w') \<longrightarrow>
            get_entity w' i = Some (b\<lparr>waiting_for_minerals := True\<rparr>) \<and>
            (\<exists>evs. published w' = published w @ evs \<and>
               (\<forall>x \<in> set evs. \<not> started_by i (snd x)) \<and>
               team_minerals w' (team b) =
                 Some (m - sum_list (map (\<lambda>x. started_cost cfg (team b) (snd x)) evs)))) \<and>
         ((\<forall>e \<in> set (entities w). ent_id e \<noteq> i \<longrightarrow> \<not> (is_building e \<and> alive e)) \<longrightarrow>
            production_update cfg dt draws (ps, w) =
              Inr (ps\<lparr>ps_waiting_for_minerals := tick_cooldowns dt (ps_waiting_for_minerals ps)\<rparr>,
                   w\<lparr>entities := map (\<lambda>e. if ent_id e = i then e\<lparr>waiting_for_minerals := True\<rparr> else e)
                                    (entities w)\<rparr>))"
proof (intro conjI allI impI)
  let ?body = "production_entity cfg dt draws"
  let ?ids = "map ent_id (entities w)"
  have fr: "fresh_ids w" using assms(2) by (simp add: fresh_ids_def)
  have bmem: "b \<in> set (entities w)" and idb: "ent_id b = i"
    using assms(4) get_entity_member get_entity_id by blast+
  then have lt: "i < next_id w" using assms(2) by blast
  from bmem idb have "i \<in> set ?ids" by force
  then obtain xs ys where split: "?ids = xs @ i # ys" by (meson split_list)
  with assms(1) have nxs: "i \<notin> set xs" and nys: "i \<notin> set ys" by auto
  {
    fix ps' w'
    assume "production_update cfg dt draws (ps, w) = Inr (ps', w')"
    then have "fold_err ?body (xs @ i # ys) w = Inr w'"
      unfolding split [symmetric] by (auto simp: production_update_def Let_def split: sum.splits)
    then obtain w1 w2 where f1: "fold_err ?body xs w = Inr w1"
      and s2: "?body i w1 = Inr w2" and f3: "fold_err ?body ys w2 = Inr w'"
      by (auto simp: fold_err_append split: sum.splits)
    from f1 fr nxs lt have ov1: "other_visit cfg i w w1" by (rule fold_production_other)
    then obtain evs1 where e1: "published w1 = published w @ evs1"
      "\<forall>x \<in> set evs1. \<not> started_by i (snd x)"
      "team_minerals w1 (team b) =
         Some (m - sum_list (map (\<lambda>x. started_cost cfg (team b) (snd x)) evs1))"
      using assms(10) unfolding other_visit_def by blast
    have g1: "get_entity w1 i = Some b" "fresh_ids w1" "i < next_id w1"
      using ov1 assms(4) lt by (simp_all add: other_visit_def)
    have "0 \<le> sum_list (map (\<lambda>x. started_cost cfg (team b) (snd x)) evs1)"
      by (rule sum_list_nonneg) (use started_cost_nonneg [OF assms(3)] in auto)
    with assms(11)
    have low: "m - sum_list (map (\<lambda>x. started_cost cfg (team b) (snd x)) evs1) < st_cost st"
      by simp
    have w2: "w2 = upd w1 i (\<lambda>e. e\<lparr>waiting_for_minerals := True\<rparr>)"
      using production_entity_waits [OF g1(1) assms(5,6,7,8,9) e1(3) low, of dt draws] s2
      by simp
    have g2: "get_entity w2 i = Some (b\<lparr>waiting_for_minerals := True\<rparr>)"
      unfolding w2 using g1(1) by (simp add: get_entity_upd)
    have fr2: "fresh_ids w2" "i < next_id w2"
      unfolding w2 using g1(2,3) by (simp_all add: fresh_ids_upd next_id_upd)
    have p2: "published w2 = published w1" "team_minerals w2 = team_minerals w1"
      unfolding w2 by (simp_all add: upd_def)
    from f3 fr2(1) nys fr2(2) have ov3: "other_visit cfg i w2 w'" by (rule fold_production_other)
    then obtain evs2 where e2: "published w' = published w2 @ evs2"
      "\<forall>x \<in> set evs2. \<not> started_by i (snd x)"
      and acc: "\<forall>t m. team_minerals w2 t = Some m \<longrightarrow>
         team_minerals w' t = Some (m - sum_list (map (\<lambda>x. started_cost cfg t (snd x)) evs2))"
      unfolding other_visit_def by blast
    have "team_minerals w2 (team b) =
         Some (m - sum_list (map (\<lambda>x. started_cost cfg (team b) (snd x)) evs1))"
      using e1(3) p2(2) by simp
    with acc have e2': "team_minerals w' (team b) =
         Some (m - sum_list (map (\<lambda>x. started_cost cfg (team b) (snd x)) evs1)
                 - sum_list (map (\<lambda>x. started_cost cfg (team b) (snd x)) evs2))"
      by blast
    show "get_entity w' i = Some (b\<lparr>waiting_for_minerals := True\<rparr>)"
      using ov3 g2 by (simp add: other_visit_def)
    have "published w' = published w @ (evs1 @ evs2)" using e1(1) e2(1) p2(1) by simp
    moreover have "\<forall>x \<in> set (evs1 @ evs2). \<not> started_by i (snd x)" using e1(2) e2(2) by auto
    moreover have "team_minerals w' (team b) =
        Some (m - sum_list (map (\<lambda>x. started_cost cfg (team b) (snd x)) (evs1 @ evs2)))"
      using e2' by simp
    ultimately show "\<exists>evs. published w' = published w @ evs \<and>
               (\<forall>x \<in> set evs. \<not> started_by i (snd x)) \<and>
               team_minerals w' (team b) =
                 Some (m - sum_list (map (\<lambda>x. started_cost cfg (team b) (snd x)) evs))"
      by blast
  }
  {
    assume alone: "\<forall>e \<in> set (entities w). ent_id e \<noteq> i \<longrightarrow> \<not> (is_building e \<and> alive e)"
    let ?w2 = "upd w i (\<lambda>e. e\<lparr>waiting_for_minerals := True\<rparr>)"
    have other: "\<not> (is_building e \<and> alive e)" if "j \<noteq> i" "get_entity w j = Some e" for j e
      using that alone get_entity_member [of w j e] get_entity_id [of w j e] by blast
    have "fold_err ?body xs w = Inr w"
    proof (rule fold_production_skip, intro ballI allI impI)
      fix j e assume j: "j \<in> set xs" and e: "get_entity w j = Some e"
      from j nxs have "j \<noteq> i" by blast
      then show "\<not> (is_building e \<and> alive e)" using e by (rule other)
    qed
    moreover have "?body i w = Inr ?w2"
      using assms(4-11) by (rule production_entity_waits)
    moreover have "fold_err ?body ys ?w2 = Inr ?w2"
    proof (rule fold_production_skip, intro ballI allI impI)
      fix j e assume j: "j \<in> set ys" and e: "get_entity ?w2 j = Some e"
      from j nys have "j \<noteq> i" by blast
      with e have "get_entity w j = Some e" by (simp add: get_entity_upd)
      with \<open>j \<noteq> i\<close> show "\<not> (is_building e \<and> alive e)" by (rule other)
    qed
    ultimately have "fold_err ?body ?ids w = Inr ?w2"
      unfolding split by (simp add: fold_err_append)
    then show "production_update cfg dt draws (ps, w) =
              Inr (ps\<lparr>ps_waiting_for_minerals := tick_cooldowns dt (ps_waiting_for_minerals ps)\<rparr>,
                   w\<lparr>entities := map (\<lambda>e. if ent_id e = i then e\<lparr>waiting_for_minerals := True\<rparr> else e)
                                    (entities w)\<rparr>)"
      by (simp add: production_update_def Let_def upd_def)
  }
qed

text \<open>
  The theorem at a base (id 1) that queues a worker, cost 50, and a barracks (id 2)
  that queues a soldier, cost 75, of one team that holds 60 minerals. The update
  starts the worker, which leaves 10 minerals and publishes the base's
  ProductionStartedEvent; the barracks cannot pay and only waits.
\<close>

theorem insufficient_minerals_update_only_waits_witness:
  "\<exists>ps' w'.
     production_update demo_stats (1/30)
       (\<lambda>_. \<lparr>spawn_offset = 0, unit_name = ''Ada'', unit_rank = ''Pvt''\<rparr>)
       (\<lparr>ps_waiting_for_minerals = Map.empty\<rparr>,
        World_init\<lparr>entities :=
            [(new_entity Base 1 1 (1, 0) 500)\<lparr>production_queue := [''Worker''], build_time := 8\<rparr>,
             (new_entity Barracks 2 1 (5, 0) 300)\<lparr>production_queue := [''Soldier''], build_time := 12\<rparr>],
          next_id := 3, team_minerals := [1 \<mapsto> 60, 2 \<mapsto> 100]\<rparr>) = Inr (ps', w') \<and>
     get_entity w' 2 = Some ((new_entity Barracks 2 1 (5, 0) 300)
        \<lparr>production_queue := [''Soldier''], build_time := 12, waiting_for_minerals := True\<rparr>) \<and>
     published w' = [(0, ProductionStartedEvent 1 ''Worker'' 1 1)] \<and>
     team_minerals w' 1 = Some 10"
proof -
  let ?base = "(new_entity Base 1 1 (1, 0) 500)\<lparr>production_queue := [''Worker''], build_time := 8\<rparr>"
  let ?bar = "(new_entity Barracks 2 1 (5, 0) 300)\<lparr>production_queue := [''Soldier''], build_time := 12\<rparr>"
  let ?w = "World_init\<lparr>entities := [?base, ?bar], next_id := 3,
              team_minerals := [1 \<mapsto> 60, 2 \<mapsto> 100]\<rparr>"
  let ?draws = "\<lambda>_ :: int. \<lparr>spawn_offset = 0, unit_name = ''Ada'', unit_rank = ''Pvt''\<rparr>"
  let ?ps = "\<lparr>ps_waiting_for_minerals = Map.empty\<rparr>"
  let ?st = "\<lparr> st_hp = 80, st_speed = 4, st_vision = 7, st_cost = 75, st_build_time = 12,
               st_carry_capacity = 0, st_damage = 10, st_range = 2, st_cooldown = 1 \<rparr>"
  have run: "\<exists>ps' w'. production_update demo_stats (1/30) ?draws (?ps, ?w) = Inr (ps', w') \<and>
      published w' = [(0, ProductionStartedEvent 1 ''Worker'' 1 1)] \<and> team_minerals w' 1 = Some 10"
    by (simp add: production_update_def production_entity_def progress_item_def publish_def
        upd_def get_entity_def is_building_def World_init_def demo_stats_def new_entity_def Let_def)
  then obtain ps' w' where r: "production_update demo_stats (1/30) ?draws (?ps, ?w) = Inr (ps', w')"
    "published w' = [(0, ProductionStartedEvent 1 ''Worker'' 1 1)]" "team_minerals w' 1 = Some 10"
    by blast
  have h: "distinct (map ent_id (entities ?w))" "\<forall>e \<in> set (entities ?w). ent_id e < next_id ?w"
    "\<forall>ut s. UNIT_STATS demo_stats ut = Some s \<longrightarrow> 0 \<le> st_cost s"
    "get_entity ?w 2 = Some ?bar" "is_building ?bar" "alive ?bar"
    "production_queue ?bar = ''Soldier'' # []" "production_progress ?bar = 0"
    "UNIT_STATS demo_stats ''Soldier'' = Some ?st" "team_minerals ?w (team ?bar) = Some 60"
    "(60::int) < st_cost ?st"
    by (auto simp: get_entity_def World_init_def new_entity_def is_building_def demo_stats_def
        split: if_splits)
  from insufficient_minerals_update_only_waits [OF h, where dt = "1/30" and draws = ?draws
      and ps = ?ps] r(1)
  have "get_entity w' 2 = Some (?bar\<lparr>waiting_for_minerals := True\<rparr>)"
    by blast
  with r show ?thesis by auto
qed

text \<open>
  The claim as stated, read of the whole update, fails as soon as another building of
  the team can pay. In the world above the barracks is alive, has progress 0 and
  queues a soldier that costs 75 while the team holds 60; the update deducts 50 for the
  base's worker and publishes a ProductionStartedEvent.
\<close>

theorem insufficient_minerals_second_building_counterexample:
  "get_entity
     (World_init\<lparr>entities :=
         [(new_entity Base 1 1 (1, 0) 500)\<lparr>production_queue := [''Worker''], build_time := 8\<rparr>,
          (new_entity Barracks 2 1 (5, 0) 300)\<lparr>production_queue := [''Soldier''], build_time := 12\<rparr>],
       next_id := 3, team_minerals := [1 \<mapsto> 60, 2 \<mapsto> 100]\<rparr>) 2 =
     Some ((new_entity Barracks 2 1 (5, 0) 300)\<lparr>production_queue := [''Soldier''], build_time := 12\<rparr>) \<and>
   is_building ((new_entity Barracks 2 1 (5, 0) 300)\<lparr>production_queue := [''Soldier''], build_time := 12\<rparr>) \<and>
   alive ((new_entity Barracks 2 1 (5, 0) 300)\<lparr>production_queue := [''Soldier''], build_time := 12\<rparr>) \<and>
   team ((new_entity Barracks 2 1 (5, 0) 300)\<lparr>production_queue := [''Soldier''], build_time := 12\<rparr>) = 1 \<and>
   production_progress
     ((new_entity Barracks 2 1 (5, 0) 300)\<lparr>production_queue := [''Soldier''], build_time := 12\<rparr>) = 0 \<and>
   map_option st_cost (UNIT_STATS demo_stats ''Soldier'') = Some 75 \<and>
   (\<exists>ps' w'.
      production_update demo_stats (1/30)
        (\<lambda>_. \<lparr>spawn_offset = 0, unit_name = ''Ada'', unit_rank = ''Pvt''\<rparr>)
        (\<lparr>ps_waiting_for_minerals = Map.empty\<rparr>,
         World_init\<lparr>entities :=
             [(new_entity Base 1 1 (1, 0) 500)\<lparr>production_queue := [''Worker''], build_time := 8\<rparr>,
              (new_entity Barracks 2 1 (5, 0) 300)\<lparr>production_queue := [''Soldier''], build_time := 12\<rparr>],
           next_id := 3, team_minerals := [1 \<mapsto> 60, 2 \<mapsto> 100]\<rparr>) = Inr (ps', w') \<and>
      team_minerals w' 1 = Some 10 \<and>
      published w' = [(0, ProductionStartedEvent 1 ''Worker'' 1 1)])"
  by (simp add: production_update_def production_entity_def progress_item_def publish_def
      upd_def get_entity_def is_building_def World_init_def demo_stats_def new_entity_def Let_def)


subsection \<open>Base-under-attack alerts\<close>

lemma base_alerts_upd: "base_alerts (upd w i f) = base_alerts w"
  by (simp add: base_alerts_def upd_def)

lemma game_time_upd: "game_time (upd w i f) = game_time w"
  by (simp add: upd_def)

lemma game_time_publish: "game_time (publish w ev) = game_time w"
  by (simp add: publish_def)

lemma base_alerts_publish:
  "base_alerts (publish w ev) = base_alerts w @ base_alert_of (game_time w, ev)"
  by (simp add: base_alerts_def publish_def)

lemma combat_inv_upd: "combat_inv cs (upd w i f) = combat_inv cs w"
  by (simp add: combat_inv_def base_alerts_upd game_time_upd)

lemma combat_inv_publish_other:
  assumes "base_alert_of (game_time w, ev) = []"
  shows "combat_inv cs (publish w ev) = combat_inv cs w"
  using assms by (simp add: combat_inv_def base_alerts_publish game_time_publish)

lemma base_attack_alert_inv:
  assumes "combat_inv cs w"
  shows "combat_inv (fst (base_attack_alert cs w tg k)) (snd (base_attack_alert cs w tg k))"
proof (cases "game_time w - (case base_attack_cooldown cs (ent_id tg) of None \<Rightarrow> 0 | Some t \<Rightarrow> t) \<ge> 10")
  case False
  then show ?thesis using assms by (simp add: base_attack_alert_def Let_def)
next
  case True
  let ?b = "ent_id tg"
  let ?T = "game_time w"
  let ?cs = "cs\<lparr>base_attack_cooldown := (base_attack_cooldown cs)(?b \<mapsto> ?T)\<rparr>"
  let ?w = "publish w (BaseUnderAttackEvent ?b (team tg) k)"
  have res: "base_attack_alert cs w tg k = (?cs, ?w)"
    using True by (simp add: base_attack_alert_def Let_def)
  have al: "base_alerts ?w = base_alerts w @ [(?T, ?b)]"
    by (simp add: base_alerts_publish base_alert_of_def)
  have s: "sorted_wrt alert_gap (base_alerts w)"
    and c: "\<And>a. a \<in> set (base_alerts w) \<Longrightarrow>
              \<exists>l. base_attack_cooldown cs (snd a) = Some l \<and> fst a \<le> l"
    and t: "\<And>b l. base_attack_cooldown cs b = Some l \<Longrightarrow> l \<le> ?T"
    using assms by (auto simp: combat_inv_def)
  have gap: "alert_gap a (?T, ?b)" if "a \<in> set (base_alerts w)" for a
  proof (cases "snd a = ?b")
    case False
    then show ?thesis by (simp add: alert_gap_def)
  next
    case same: True
    from c [OF that] same obtain l where l: "base_attack_cooldown cs ?b = Some l" "fst a \<le> l"
      by auto
    with True have "?T - l \<ge> 10" by simp
    with l show ?thesis by (simp add: alert_gap_def)
  qed
  have "sorted_wrt alert_gap (base_alerts ?w)"
    unfolding al using s gap by (simp add: sorted_wrt_append)
  moreover have "\<forall>a \<in> set (base_alerts ?w).
      \<exists>l. base_attack_cooldown ?cs (snd a) = Some l \<and> fst a \<le> l"
  proof
    fix a assume "a \<in> set (base_alerts ?w)"
    then consider "a = (?T, ?b)" | "a \<in> set (base_alerts w)"
      unfolding al by auto
    then show "\<exists>l. base_attack_cooldown ?cs (snd a) = Some l \<and> fst a \<le> l"
    proof cases
      case 1
      then show ?thesis by simp
    next
      case 2
      from c [OF 2] obtain l where l: "base_attack_cooldown cs (snd a) = Some l" "fst a \<le> l"
        by auto
      with t [of "snd a" l] show ?thesis by (cases "snd a = ?b") simp_all
    qed
  qed
  moreover have "\<forall>b l. base_attack_cooldown ?cs b = Some l \<longrightarrow> l \<le> game_time ?w"
    using t by (auto simp: game_time_publish)
  ultimately show ?thesis
    unfolding res by (simp add: combat_inv_def)
qed

lemma combat_hit_inv:
  assumes "combat_inv (fst s) (fst (snd s))"
  shows "combat_inv (fst (combat_hit s e tg)) (fst (snd (combat_hit s e tg)))"
proof -
  let ?w3 = "publish (upd (upd (fst (snd s)) (ent_id tg) (\<lambda>t. take_damage t (damage e)))
                  (ent_id e) (\<lambda>a. a\<lparr>cooldown_remaining := attack_cooldown a\<rparr>))
               (AttackEvent (ent_id e) (ent_id tg) (damage e) (hp (take_damage tg (damage e))))"
  have "combat_inv (fst s) ?w3"
    using assms by (simp add: combat_inv_publish_other base_alert_of_def combat_inv_upd)
  then show ?thesis
    using base_attack_alert_inv [of "fst s" ?w3 tg "ent_id e"]
    by (simp add: combat_hit_def Let_def)
qed

lemma combat_target_inv:
  assumes "combat_inv (fst s) (fst (snd s))"
  shows "combat_inv (fst (combat_target s e)) (fst (snd (combat_target s e)))"
proof (cases "target e = None \<or> target e = Some 0")
  case True
  then show ?thesis using assms by (simp add: combat_target_def Let_def)
next
  case False
  show ?thesis
  proof (cases "get_entity (fst (snd s)) (the (target e))")
    case None
    with False assms show ?thesis by (simp add: combat_target_def Let_def combat_inv_upd)
  next
    case (Some tg)
    let ?w1 = "upd (fst (snd s)) (ent_id e) (\<lambda>a. a\<lparr>destination := None, path := []\<rparr>)"
    have "combat_inv (fst s) ?w1" using assms by (simp add: combat_inv_upd)
    then have "combat_inv (fst (combat_hit (fst s, ?w1, snd (snd s)) e tg))
                 (fst (snd (combat_hit (fst s, ?w1, snd (snd s)) e tg)))"
      using combat_hit_inv [of "(fst s, ?w1, snd (snd s))" e tg] by simp
    with False Some assms show ?thesis
      by (simp add: combat_target_def Let_def combat_inv_upd)
  qed
qed

lemma combat_entity_inv:
  assumes "combat_inv (fst s) (fst (snd s))"
  shows "combat_inv (fst (combat_entity dt i s)) (fst (snd (combat_entity dt i s)))"
proof (cases "get_entity (fst (snd s)) i")
  case None
  then show ?thesis using assms by (simp add: combat_entity_def Let_def)
next
  case (Some e)
  show ?thesis
  proof (cases "kind e \<noteq> Soldier \<or> \<not> alive e")
    case True
    with Some assms show ?thesis by (auto simp: combat_entity_def Let_def)
  next
    case False
    have "\<And>e2. combat_inv (fst (combat_target (fst s, upd (fst (snd s)) i (\<lambda>_. e2), snd (snd s)) e2))
            (fst (snd (combat_target (fst s, upd (fst (snd s)) i (\<lambda>_. e2), snd (snd s)) e2)))"
      using assms by (intro combat_target_inv) (simp add: combat_inv_upd)
    with Some False show ?thesis
      by (simp add: combat_entity_def Let_def)
  qed
qed

lemma publish_death_inv: "combat_inv cs (publish_death d w) = combat_inv cs w"
  by (simp add: publish_death_def combat_inv_publish_other base_alert_of_def split: option.splits)

lemma combat_update_inv:
  assumes "combat_inv (fst s) (snd s)"
  shows "combat_inv (fst (combat_update dt s)) (snd (combat_update dt s))"
proof -
  let ?r = "fold (combat_entity dt) (map ent_id (entities (snd s))) (fst s, snd s, [])"
  have "combat_inv (fst ?r) (fst (snd ?r))"
    by (rule fold_preserves [where P = "\<lambda>r. combat_inv (fst r) (fst (snd r))"])
       (simp_all add: combat_entity_inv assms)
  then have "combat_inv (fst ?r) (fold publish_death (snd (snd ?r)) (fst (snd ?r)))"
    by (rule fold_preserves [where P = "combat_inv (fst ?r)", rotated])
       (simp add: publish_death_inv)
  then show ?thesis
    by (simp add: combat_update_def Let_def)
qed

lemma combat_reachable_inv:
  "combat_reachable s \<Longrightarrow> combat_inv (fst s) (snd s)"
proof (induction rule: combat_reachable.induct)
  case (start w)
  then show ?case by (simp add: combat_inv_def CombatSystem_init_def)
next
  case (combat s dt)
  from combat.IH show ?case by (rule combat_update_inv)
next
  case (other cs w w')
  then have "\<And>b l. base_attack_cooldown cs b = Some l \<Longrightarrow> l \<le> game_time w'"
    by (fastforce simp: combat_inv_def)
  with other show ?case by (simp add: combat_inv_def)
qed

text \<open>
  C8. In every state a game reaches, any two BaseUnderAttackEvents published for the
  same base are at least 10 seconds of game time apart: no window of less than 10
  seconds holds two of them, however many soldiers hit the base (in one tick or over
  several).
\<close>

theorem base_alerts_ten_seconds_apart:
  assumes "combat_reachable (cs, w)"
    and "i < j" and "j < length (base_alerts w)"
    and "snd (base_alerts w ! i) = snd (base_alerts w ! j)"
  shows "fst (base_alerts w ! j) - fst (base_alerts w ! i) \<ge> 10"
proof -
  have "sorted_wrt alert_gap (base_alerts w)"
    using combat_reachable_inv [OF assms(1)] by (simp add: combat_inv_def)
  then have "alert_gap (base_alerts w ! i) (base_alerts w ! j)"
    using assms(2,3) by (simp add: sorted_wrt_iff_nth_less)
  then show ?thesis
    using assms(4) by (simp add: alert_gap_def)
qed


lemma siege_first_alerts:
  "base_attack_cooldown (fst siege_first) = [1 \<mapsto> 10] \<and>
   base_alerts (snd siege_first) = [(10, 1)]"
  by (simp add: siege_first_def combat_update_def combat_entity_def combat_target_def
      combat_hit_def base_attack_alert_def publish_death_def take_damage_def
      siege_scene_def World_init_def CombatSystem_init_def new_entity_def
      get_entity_def upd_def publish_def base_alerts_def base_alert_of_def Let_def)


lemma siege_second_alerts: "base_alerts (snd siege_second) = [(10, 1), (20, 1)]"
proof -
  have c: "base_attack_cooldown (fst siege_first) = [1 \<mapsto> 10]"
    and a: "base_alerts (snd siege_first) = [(10, 1)]"
    using siege_first_alerts by simp_all
  have eq: "fst siege_first = \<lparr>base_attack_cooldown = [1 \<mapsto> 10]\<rparr>"
    using c by (cases "fst siege_first") simp
  have ev: "base_alerts (snd (combat_update (1/30)
               (\<lparr>base_attack_cooldown = [1 \<mapsto> 10]\<rparr>, (siege_scene 20)\<lparr>published := evs\<rparr>)))
            = concat (map base_alert_of evs) @ [(20, 1)]" for evs
    by (simp add: combat_update_def combat_entity_def combat_target_def
        combat_hit_def base_attack_alert_def publish_death_def take_damage_def
        siege_scene_def World_init_def new_entity_def
        get_entity_def upd_def publish_def base_alerts_def base_alert_of_def Let_def)
  show ?thesis
    unfolding siege_second_def eq ev using a by (simp add: base_alerts_def)
qed

text \<open>
  The theorem on the siege: both soldiers strike at game time 10 and again at game
  time 20; one alert is published at 10 and the next at 20.
\<close>

theorem base_alerts_ten_seconds_apart_witness:
  "combat_reachable siege_second \<and>
   base_alerts (snd siege_second) = [(10, 1), (20, 1)] \<and>
   fst (base_alerts (snd siege_second) ! 1) - fst (base_alerts (snd siege_second) ! 0) \<ge> 10"
proof -
  have "combat_reachable (CombatSystem_init, siege_scene 10)"
    by (rule combat_reachable.start)
       (simp add: base_alerts_def siege_scene_def World_init_def)
  then have "combat_reachable siege_first"
    unfolding siege_first_def by (rule combat_reachable.combat)
  then have "combat_reachable (fst siege_first, snd siege_first)"
    by simp
  then have "combat_reachable
      (fst siege_first, (siege_scene 20)\<lparr>published := published (snd siege_first)\<rparr>)"
  proof (rule combat_reachable.other)
    show "base_alerts ((siege_scene 20)\<lparr>published := published (snd siege_first)\<rparr>) =
          base_alerts (snd siege_first)"
      by (simp add: base_alerts_def)
    have "game_time (snd siege_first) = 10"
      by (simp add: siege_first_def combat_update_def combat_entity_def combat_target_def
        combat_hit_def base_attack_alert_def publish_death_def take_damage_def
        siege_scene_def World_init_def CombatSystem_init_def new_entity_def
        get_entity_def upd_def publish_def Let_def)
    then show "game_time (snd siege_first)
          \<le> game_time ((siege_scene 20)\<lparr>published := published (snd siege_first)\<rparr>)"
      by (simp add: siege_scene_def)
  qed
  then have r: "combat_reachable siege_second"
    unfolding siege_second_def by (rule combat_reachable.combat)
  then have r': "combat_reachable (fst siege_second, snd siege_second)"
    by simp
  have "fst (base_alerts (snd siege_second) ! 1) - fst (base_alerts (snd siege_second) ! 0) \<ge> 10"
    using base_alerts_ten_seconds_apart [OF r', of 0 1] by (simp add: siege_second_alerts)
  with r show ?thesis by (simp add: siege_second_alerts)
qed


subsection \<open>Pathfinder\<close>

lemma strip_nearest: "find_nearest_walkable strip_map (3, 0) = Some (1, 0)"
  by (simp add: find_nearest_walkable_def ring_candidates_def py_range_def upto_rec1
      is_walkable_def strip_map_def)

lemma strip_relax:
  "fold_err (relax strip_map (1, 0) (0, 0)) DIRECTIONS
     \<lparr> open_set = [], came_from = Map.empty, g_score = [(0, 0) \<mapsto> 0], counter = 0 \<rparr>
   = Inr \<lparr> open_set = [(1, 1, (1, 0))], came_from = [(1, 0) \<mapsto> (0, 0)],
           g_score = [(0, 0) \<mapsto> 0, (1, 0) \<mapsto> 1], counter = 1 \<rparr>"
  by (simp add: relax_def DIRECTIONS_def is_walkable_def strip_map_def heuristic_def Let_def)

lemma strip_path:
  "find_path (Some strip_map) (0, 0) (3, 0) = Some (Inr [(1, 0)])"
proof -
  have r: "reconstruct_path [(1, 0) \<mapsto> (0, 0)] (1, 0) = Some [(1, 0)]"
    by (simp add: reconstruct_path_def reconstruct_loop.simps)
  have "astar_loop strip_map (1, 0) (astar_init (0, 0)) = Some (Inr [(1, 0)])"
    apply (subst astar_loop.simps)
    apply (simp add: astar_init_def heap_min_def strip_relax Let_def)
    apply (subst astar_loop.simps)
    apply (simp add: heap_min_def r Let_def)
    done
  moreover have "\<not> is_walkable strip_map 3 0"
    by (simp add: is_walkable_def strip_map_def)
  ultimately show ?thesis
    by (simp add: find_path_def tile_of_def py_int_def search_goal_def strip_nearest)
qed


lemma ledge_nearest: "find_nearest_walkable ledge_map (3, 0) = Some (2, 0)"
  by (simp add: find_nearest_walkable_def ring_candidates_def py_range_def upto_rec1
      is_walkable_def ledge_map_def)

lemma ledge_relax0:
  "fold_err (relax ledge_map (2, 0) (0, 0)) DIRECTIONS
     \<lparr> open_set = [], came_from = Map.empty, g_score = [(0, 0) \<mapsto> 0], counter = 0 \<rparr>
   = Inr \<lparr> open_set = [(2, 1, (1, 0))], came_from = [(1, 0) \<mapsto> (0, 0)],
           g_score = [(0, 0) \<mapsto> 0, (1, 0) \<mapsto> 1], counter = 1 \<rparr>"
  by (simp add: relax_def DIRECTIONS_def is_walkable_def ledge_map_def heuristic_def Let_def)

lemma ledge_relax1:
  "fold_err (relax ledge_map (2, 0) (1, 0)) DIRECTIONS
     \<lparr> open_set = [], came_from = [(1, 0) \<mapsto> (0, 0)],
       g_score = [(0, 0) \<mapsto> 0, (1, 0) \<mapsto> 1], counter = Suc 0 \<rparr>
   = Inr \<lparr> open_set = [(2, 2, (2, 0))], came_from = [(1, 0) \<mapsto> (0, 0), (2, 0) \<mapsto> (1, 0)],
           g_score = [(0, 0) \<mapsto> 0, (1, 0) \<mapsto> 1, (2, 0) \<mapsto> 2], counter = 2 \<rparr>"
  by (simp add: relax_def DIRECTIONS_def is_walkable_def ledge_map_def heuristic_def Let_def)

lemma ledge_path:
  "find_path (Some ledge_map) (0, 0) (3, 0) = Some (Inr [(1, 0), (2, 0)])"
proof -
  have r: "reconstruct_path [(1, 0) \<mapsto> (0, 0), (2, 0) \<mapsto> (1, 0)] (2, 0) = Some [(1, 0), (2, 0)]"
    by (simp add: reconstruct_path_def reconstruct_loop.simps)
  have "astar_loop ledge_map (2, 0) (astar_init (0, 0)) = Some (Inr [(1, 0), (2, 0)])"
    apply (subst astar_loop.simps)
    apply (simp add: astar_init_def heap_min_def ledge_relax0 Let_def)
    apply (subst astar_loop.simps)
    apply (simp add: heap_min_def ledge_relax1 Let_def)
    apply (subst astar_loop.simps)
    apply (simp add: heap_min_def r Let_def)
    done
  moreover have "\<not> is_walkable ledge_map 3 0"
    by (simp add: is_walkable_def ledge_map_def)
  ultimately show ?thesis
    by (simp add: find_path_def tile_of_def py_int_def search_goal_def ledge_nearest)
qed


lemma reconstruct_loop_chain:
  assumes "reconstruct_loop cf c p = Some q"
  shows "p \<noteq> [] \<longrightarrow> last p = c \<longrightarrow>
         (\<exists>r. q = p @ r) \<and> set (butlast q) \<subseteq> set (butlast p) \<union> dom cf"
proof (rule reconstruct_loop.raw_induct
    [where P = "\<lambda>cf c p q. p \<noteq> [] \<longrightarrow> last p = c \<longrightarrow>
         (\<exists>r. q = p @ r) \<and> set (butlast q) \<subseteq> set (butlast p) \<union> dom cf", OF _ assms])
  fix rl :: "(tile \<rightharpoonup> tile) \<Rightarrow> tile \<Rightarrow> tile list \<Rightarrow> tile list option"
  fix cf c p q
  assume IH: "\<And>cf c p q. rl cf c p = Some q \<Longrightarrow> p \<noteq> [] \<longrightarrow> last p = c \<longrightarrow>
         (\<exists>r. q = p @ r) \<and> set (butlast q) \<subseteq> set (butlast p) \<union> dom cf"
    and eq: "(case cf c of None \<Rightarrow> Some p | Some prev \<Rightarrow> rl cf prev (p @ [prev])) = Some q"
  show "p \<noteq> [] \<longrightarrow> last p = c \<longrightarrow>
         (\<exists>r. q = p @ r) \<and> set (butlast q) \<subseteq> set (butlast p) \<union> dom cf"
  proof (cases "cf c")
    case None
    with eq show ?thesis by simp
  next
    case (Some prev)
    with eq have "rl cf prev (p @ [prev]) = Some q" by simp
    from IH [OF this]
    have ih: "(\<exists>r. q = (p @ [prev]) @ r) \<and>
              set (butlast q) \<subseteq> set (butlast (p @ [prev])) \<union> dom cf"
      by simp
    show ?thesis
    proof (intro impI)
      assume p: "p \<noteq> []" and l: "last p = c"
      have "butlast p @ [last p] = p" using p by (rule append_butlast_last_id)
      then have "set p = set (butlast p @ [c])" using l by simp
      then have "set p = insert c (set (butlast p))" by simp
      moreover have "c \<in> dom cf" using Some by auto
      ultimately have "set p \<subseteq> set (butlast p) \<union> dom cf" by auto
      with ih show "(\<exists>r. q = p @ r) \<and> set (butlast q) \<subseteq> set (butlast p) \<union> dom cf"
        by (auto simp: butlast_snoc)
    qed
  qed
qed

lemma reconstruct_path_result:
  assumes "reconstruct_path cf c = Some res"
  shows "set res \<subseteq> dom cf \<and> (res \<noteq> [] \<longrightarrow> last res = c)"
proof -
  from assms obtain q where q: "reconstruct_loop cf c [c] = Some q" and res: "res = tl (rev q)"
    by (auto simp: reconstruct_path_def)
  from reconstruct_loop_chain [OF q] obtain r where r: "q = c # r"
    and sub: "set (butlast q) \<subseteq> dom cf"
    by auto
  have res': "res = rev (butlast q)"
    unfolding res using butlast_rev [of "rev q"] by (simp add: rev_swap)
  have "last res = c" if "res \<noteq> []"
  proof -
    from that res' have "butlast q \<noteq> []" by simp
    then have "r \<noteq> []" using r by auto
    then have "hd (butlast q) = c" using r by simp
    then show ?thesis
      using res' \<open>butlast q \<noteq> []\<close> by (simp add: last_rev)
  qed
  with sub res' show ?thesis by simp
qed

lemma relax_inv:
  assumes "astar_inv start st" and "0 < snd d" and "relax gm goal current d st = Inr st'"
  shows "astar_inv start st'"
proof -
  let ?n = "(fst current + fst (fst d), snd current + snd (fst d))"
  show ?thesis
  proof (cases "is_walkable gm (fst ?n) (snd ?n)")
    case False
    with assms show ?thesis by (simp add: relax_def Let_def)
  next
    case True
    with assms(3) obtain g where g: "g_score st current = Some g"
      by (auto simp: relax_def Let_def split: option.splits)
    have "\<forall>n g. g_score st n = Some g \<longrightarrow> 0 \<le> g"
      using assms(1) by (simp add: astar_inv_def)
    with g have g0: "0 \<le> g" by blast
    show ?thesis
    proof (cases "g_score st ?n = None \<or> g + snd d < the (g_score st ?n)")
      case False
      with assms True g show ?thesis by (auto simp: relax_def Let_def)
    next
      case upd: True
      have "?n \<noteq> start"
      proof
        assume "?n = start"
        then have "g_score st ?n = Some 0" using assms(1) by (simp add: astar_inv_def)
        with upd g0 assms(2) show False by simp
      qed
      moreover from assms(3) True g upd
      have "st' = st\<lparr>came_from := (came_from st)(?n \<mapsto> current),
                      g_score := (g_score st)(?n \<mapsto> g + snd d),
                      counter := counter st + 1,
                      open_set := open_set st @ [(g + snd d + heuristic ?n goal, counter st + 1, ?n)]\<rparr>"
        by (simp add: relax_def Let_def)
      ultimately show ?thesis
        using assms(1,2) g0 by (auto simp: astar_inv_def)
    qed
  qed
qed

lemma directions_positive: "d \<in> set DIRECTIONS \<Longrightarrow> 0 < snd d"
  by (auto simp: DIRECTIONS_def)

lemma fold_relax_inv:
  assumes "astar_inv start st" and "\<forall>d \<in> set ds. 0 < snd d"
    and "fold_err (relax gm goal current) ds st = Inr st'"
  shows "astar_inv start st'"
  using assms
proof (induction ds arbitrary: st)
  case Nil
  then show ?case by simp
next
  case (Cons d ds)
  from Cons.prems(3) obtain st1 where s1: "relax gm goal current d st = Inr st1"
    and rest: "fold_err (relax gm goal current) ds st1 = Inr st'"
    by (auto split: sum.splits)
  have "astar_inv start st1"
    using Cons.prems(1) _ s1 by (rule relax_inv) (use Cons.prems(2) in simp)
  then show ?case
    using Cons.prems(2) rest by (intro Cons.IH) simp_all
qed

lemma astar_loop_result:
  assumes "astar_loop gm goal st = Some res"
  shows "astar_inv start st \<longrightarrow>
         (\<forall>p. res = Inr p \<longrightarrow> (p \<noteq> [] \<longrightarrow> last p = goal) \<and> start \<notin> set p)"
proof (rule astar_loop.raw_induct
    [where P = "\<lambda>gm goal st res. astar_inv start st \<longrightarrow>
         (\<forall>p. res = Inr p \<longrightarrow> (p \<noteq> [] \<longrightarrow> last p = goal) \<and> start \<notin> set p)", OF _ assms])
  fix al :: "game_map \<Rightarrow> tile \<Rightarrow> astar_state \<Rightarrow> (py_error + tile list) option"
  fix gm goal st res
  assume IH: "\<And>gm goal st res. al gm goal st = Some res \<Longrightarrow> astar_inv start st \<longrightarrow>
         (\<forall>p. res = Inr p \<longrightarrow> (p \<noteq> [] \<longrightarrow> last p = goal) \<and> start \<notin> set p)"
    and eq: "(case open_set st of
        [] \<Rightarrow> Some (Inr [])
      | x # xs \<Rightarrow>
          (let entry = heap_min x xs;
               current = snd (snd entry);
               st1 = st\<lparr>open_set := remove1 entry (x # xs)\<rparr>
           in if current = goal then map_option Inr (reconstruct_path (came_from st1) current)
              else
                (case fold_err (relax gm goal current) DIRECTIONS st1 of
                   Inl err \<Rightarrow> Some (Inl err)
                 | Inr st2 \<Rightarrow> al gm goal st2))) = Some res"
  show "astar_inv start st \<longrightarrow>
         (\<forall>p. res = Inr p \<longrightarrow> (p \<noteq> [] \<longrightarrow> last p = goal) \<and> start \<notin> set p)"
  proof (cases "open_set st")
    case Nil
    with eq show ?thesis by auto
  next
    case (Cons x xs)
    let ?entry = "heap_min x xs"
    let ?current = "snd (snd ?entry)"
    let ?st1 = "st\<lparr>open_set := remove1 ?entry (x # xs)\<rparr>"
    show ?thesis
    proof (cases "?current = goal")
      case True
      with eq Cons
      have "map_option Inr (reconstruct_path (came_from st) goal) = Some res"
        by (simp add: Let_def)
      then obtain p where p: "reconstruct_path (came_from st) goal = Some p" "res = Inr p"
        by auto
      from reconstruct_path_result [OF p(1)] p(2)
      show ?thesis by (auto simp: astar_inv_def)
    next
      case False
      show ?thesis
      proof (cases "fold_err (relax gm goal ?current) DIRECTIONS ?st1")
        case (Inl err)
        with eq Cons False show ?thesis by (auto simp: Let_def)
      next
        case (Inr st2)
        with eq Cons False have call: "al gm goal st2 = Some res"
          by (simp add: Let_def)
        show ?thesis
        proof
          assume inv: "astar_inv start st"
          then have "astar_inv start ?st1" by (simp add: astar_inv_def)
          then have "astar_inv start st2"
            using _ Inr by (rule fold_relax_inv) (simp add: directions_positive)
          with IH [OF call]
          show "\<forall>p. res = Inr p \<longrightarrow> (p \<noteq> [] \<longrightarrow> last p = goal) \<and> start \<notin> set p"
            by simp
        qed
      qed
    qed
  qed
qed

lemma astar_init_inv: "astar_inv start (astar_init start)"
  by (simp add: astar_inv_def astar_init_def)

text \<open>The order of the ring scan.\<close>

lemma sorted_wrt_concat_map:
  assumes "sorted_wrt Q xs"
    and "\<And>x. x \<in> set xs \<Longrightarrow> sorted_wrt R (f x)"
    and "\<And>x y a b. x \<in> set xs \<Longrightarrow> y \<in> set xs \<Longrightarrow> Q x y \<Longrightarrow>
           a \<in> set (f x) \<Longrightarrow> b \<in> set (f y) \<Longrightarrow> R a b"
  shows "sorted_wrt R (concat (map f xs))"
  using assms
proof (induction xs)
  case Nil
  then show ?case by simp
next
  case (Cons x xs)
  have "sorted_wrt R (concat (map f xs))"
  proof (rule Cons.IH)
    show "sorted_wrt Q xs" using Cons.prems(1) by simp
    show "sorted_wrt R (f y)" if "y \<in> set xs" for y
      using that Cons.prems(2) by simp
    show "R a b" if "y \<in> set xs" "z \<in> set xs" "Q y z" "a \<in> set (f y)" "b \<in> set (f z)"
      for y z a b
      using that Cons.prems(3) [of y z a b] by simp
  qed
  moreover have "sorted_wrt R (f x)" using Cons.prems(2) by simp
  moreover have "R a b" if "a \<in> set (f x)" "b \<in> set (concat (map f xs))" for a b
  proof -
    from that(2) obtain y where y: "y \<in> set xs" "b \<in> set (f y)" by auto
    with Cons.prems(1) have "Q x y" by simp
    with y that(1) show ?thesis using Cons.prems(3) [of x y a b] by simp
  qed
  ultimately show ?case by (simp add: sorted_wrt_append)
qed

lemma sorted_wrt_py_range: "sorted_wrt (<) (py_range a b)"
  unfolding py_range_def by (rule sorted_wrt_upto)

lemma set_py_range: "set (py_range a b) = {x. a \<le> x \<and> x < b}"
  by (auto simp: py_range_def)

text \<open>The tiles of one column of one ring, and of one ring.\<close>

lemma set_concat_map_eq:
  assumes "\<And>x. x \<in> set xs \<Longrightarrow> set (f x) = g x"
  shows "set (concat (map f xs)) = (\<Union>x \<in> set xs. g x)"
  using assms by simp

lemma ring_column_set:
  "set (concat (map (\<lambda>dy. if \<bar>dx\<bar> = radius \<or> \<bar>dy\<bar> = radius then [(fst p + dx, snd p + dy)] else [])
                  (py_range (- radius) (radius + 1)))) =
   {u. fst u = fst p + dx \<and> \<bar>snd u - snd p\<bar> \<le> radius \<and>
       (\<bar>dx\<bar> = radius \<or> \<bar>snd u - snd p\<bar> = radius)}"
  (is "?l = ?r")
proof
  show "?l \<subseteq> ?r"
    by (auto simp: set_py_range split: if_splits)
  show "?r \<subseteq> ?l"
  proof
    fix u assume "u \<in> ?r"
    then have u: "fst u = fst p + dx" "\<bar>snd u - snd p\<bar> \<le> radius"
      "\<bar>dx\<bar> = radius \<or> \<bar>snd u - snd p\<bar> = radius"
      by auto
    let ?dy = "snd u - snd p"
    have "?dy \<in> set (py_range (- radius) (radius + 1))"
      using u(2) by (auto simp: set_py_range)
    moreover have "u \<in> set (if \<bar>dx\<bar> = radius \<or> \<bar>?dy\<bar> = radius then [(fst p + dx, snd p + ?dy)] else [])"
      using u(1,3) by (cases u) auto
    ultimately show "u \<in> ?l" by (simp only: set_concat set_map) blast
  qed
qed

lemma ring_column_chebyshev:
  assumes "fst u = fst p + dx \<and> \<bar>snd u - snd p\<bar> \<le> radius \<and>
       (\<bar>dx\<bar> = radius \<or> \<bar>snd u - snd p\<bar> = radius)"
  shows "chebyshev u p = max \<bar>dx\<bar> radius"
  using assms by (auto simp: chebyshev_def)

lemma ring_column_sorted:
  "sorted_wrt (scanned_before p)
     (concat (map (\<lambda>dy. if \<bar>dx\<bar> = radius \<or> \<bar>dy\<bar> = radius then [(fst p + dx, snd p + dy)] else [])
                  (py_range (- radius) (radius + 1))))"
proof (rule sorted_wrt_concat_map [where Q = "(<)"])
  show "sorted_wrt (<) (py_range (- radius) (radius + 1))" by (rule sorted_wrt_py_range)
next
  fix dy
  show "sorted_wrt (scanned_before p)
          (if \<bar>dx\<bar> = radius \<or> \<bar>dy\<bar> = radius then [(fst p + dx, snd p + dy)] else [])"
    by simp
next
  fix dy dy' :: int and a b :: tile
  assume r: "dy \<in> set (py_range (- radius) (radius + 1))" "dy' \<in> set (py_range (- radius) (radius + 1))"
    and lt: "dy < dy'"
    and a: "a \<in> set (if \<bar>dx\<bar> = radius \<or> \<bar>dy\<bar> = radius then [(fst p + dx, snd p + dy)] else [])"
    and b: "b \<in> set (if \<bar>dx\<bar> = radius \<or> \<bar>dy'\<bar> = radius then [(fst p + dx, snd p + dy')] else [])"
  from a have a': "a = (fst p + dx, snd p + dy)" "\<bar>dx\<bar> = radius \<or> \<bar>dy\<bar> = radius"
    by (simp_all split: if_splits)
  from b have b': "b = (fst p + dx, snd p + dy')" "\<bar>dx\<bar> = radius \<or> \<bar>dy'\<bar> = radius"
    by (simp_all split: if_splits)
  from r have bd: "\<bar>dy\<bar> \<le> radius" "\<bar>dy'\<bar> \<le> radius" by (auto simp: set_py_range)
  have "chebyshev a p = max \<bar>dx\<bar> radius"
    by (rule ring_column_chebyshev) (use a' bd in simp)
  moreover have "chebyshev b p = max \<bar>dx\<bar> radius"
    by (rule ring_column_chebyshev) (use b' bd in simp)
  ultimately show "scanned_before p a b"
    using a'(1) b'(1) lt by (simp add: scanned_before_def)
qed

lemma ring_set:
  assumes "0 \<le> radius"
  shows "set (concat (map (\<lambda>dx.
           concat (map (\<lambda>dy. if \<bar>dx\<bar> = radius \<or> \<bar>dy\<bar> = radius then [(fst p + dx, snd p + dy)] else [])
                       (py_range (- radius) (radius + 1))))
         (py_range (- radius) (radius + 1)))) = {u. chebyshev u p = radius}"
proof -
  let ?col = "\<lambda>dx. {u. fst u = fst p + dx \<and> \<bar>snd u - snd p\<bar> \<le> radius \<and>
       (\<bar>dx\<bar> = radius \<or> \<bar>snd u - snd p\<bar> = radius)}"
  have "set (concat (map (\<lambda>dx.
           concat (map (\<lambda>dy. if \<bar>dx\<bar> = radius \<or> \<bar>dy\<bar> = radius then [(fst p + dx, snd p + dy)] else [])
                       (py_range (- radius) (radius + 1))))
         (py_range (- radius) (radius + 1)))) = (\<Union>dx \<in> set (py_range (- radius) (radius + 1)). ?col dx)"
    by (rule set_concat_map_eq) (rule ring_column_set)
  also have "\<dots> = {u. chebyshev u p = radius}"
  proof
    show "(\<Union>dx \<in> set (py_range (- radius) (radius + 1)). ?col dx) \<subseteq> {u. chebyshev u p = radius}"
    proof
      fix u assume "u \<in> (\<Union>dx \<in> set (py_range (- radius) (radius + 1)). ?col dx)"
      then obtain dx where dx: "- radius \<le> dx" "dx \<le> radius"
        and u: "fst u = fst p + dx \<and> \<bar>snd u - snd p\<bar> \<le> radius \<and>
                (\<bar>dx\<bar> = radius \<or> \<bar>snd u - snd p\<bar> = radius)"
        by (auto simp: set_py_range)
      from ring_column_chebyshev [OF u] dx show "u \<in> {u. chebyshev u p = radius}"
        by simp
    qed
    show "{u. chebyshev u p = radius} \<subseteq> (\<Union>dx \<in> set (py_range (- radius) (radius + 1)). ?col dx)"
    proof
      fix u assume "u \<in> {u. chebyshev u p = radius}"
      then have c: "max \<bar>fst u - fst p\<bar> \<bar>snd u - snd p\<bar> = radius" by (simp add: chebyshev_def)
      let ?dx = "fst u - fst p"
      have "?dx \<in> set (py_range (- radius) (radius + 1))"
        using c by (auto simp: set_py_range)
      moreover have "u \<in> ?col ?dx"
        using c by auto
      ultimately show "u \<in> (\<Union>dx \<in> set (py_range (- radius) (radius + 1)). ?col dx)"
        by blast
    qed
  qed
  finally show ?thesis .
qed

lemma ring_sorted:
  "sorted_wrt (scanned_before p)
     (concat (map (\<lambda>dx.
        concat (map (\<lambda>dy. if \<bar>dx\<bar> = radius \<or> \<bar>dy\<bar> = radius then [(fst p + dx, snd p + dy)] else [])
                    (py_range (- radius) (radius + 1))))
      (py_range (- radius) (radius + 1))))"
proof (rule sorted_wrt_concat_map [where Q = "(<)"])
  show "sorted_wrt (<) (py_range (- radius) (radius + 1))" by (rule sorted_wrt_py_range)
next
  fix dx
  show "sorted_wrt (scanned_before p)
     (concat (map (\<lambda>dy. if \<bar>dx\<bar> = radius \<or> \<bar>dy\<bar> = radius then [(fst p + dx, snd p + dy)] else [])
                  (py_range (- radius) (radius + 1))))"
    by (rule ring_column_sorted)
next
  fix dx dx' :: int and a b :: tile
  assume lt: "dx < dx'"
    and a: "a \<in> set (concat (map (\<lambda>dy. if \<bar>dx\<bar> = radius \<or> \<bar>dy\<bar> = radius then [(fst p + dx, snd p + dy)] else [])
                  (py_range (- radius) (radius + 1))))"
    and b: "b \<in> set (concat (map (\<lambda>dy. if \<bar>dx'\<bar> = radius \<or> \<bar>dy\<bar> = radius then [(fst p + dx', snd p + dy)] else [])
                  (py_range (- radius) (radius + 1))))"
    and r: "dx \<in> set (py_range (- radius) (radius + 1))" "dx' \<in> set (py_range (- radius) (radius + 1))"
  from a have a': "fst a = fst p + dx \<and> \<bar>snd a - snd p\<bar> \<le> radius \<and>
       (\<bar>dx\<bar> = radius \<or> \<bar>snd a - snd p\<bar> = radius)"
    unfolding ring_column_set by simp
  from b have b': "fst b = fst p + dx' \<and> \<bar>snd b - snd p\<bar> \<le> radius \<and>
       (\<bar>dx'\<bar> = radius \<or> \<bar>snd b - snd p\<bar> = radius)"
    unfolding ring_column_set by simp
  from r have bd: "\<bar>dx\<bar> \<le> radius" "\<bar>dx'\<bar> \<le> radius" by (auto simp: set_py_range)
  have "chebyshev a p = radius" "chebyshev b p = radius"
    using ring_column_chebyshev [OF a'] ring_column_chebyshev [OF b'] bd by simp_all
  then show "scanned_before p a b"
    using a' b' lt by (simp add: scanned_before_def)
qed

lemma ring_candidates_set:
  "set (ring_candidates p) = {u. 1 \<le> chebyshev u p \<and> chebyshev u p \<le> 9}"
proof -
  have "set (ring_candidates p) = (\<Union>radius \<in> set (py_range 1 10). {u. chebyshev u p = radius})"
    unfolding ring_candidates_def
    by (rule set_concat_map_eq) (rule ring_set, simp add: set_py_range)
  then show ?thesis by (auto simp: set_py_range)
qed

lemma ring_candidates_sorted: "sorted_wrt (scanned_before p) (ring_candidates p)"
  unfolding ring_candidates_def
proof (rule sorted_wrt_concat_map [where Q = "(<)"])
  show "sorted_wrt (<) (py_range 1 10)" by (rule sorted_wrt_py_range)
next
  fix radius
  show "sorted_wrt (scanned_before p)
     (concat (map (\<lambda>dx.
        concat (map (\<lambda>dy. if \<bar>dx\<bar> = radius \<or> \<bar>dy\<bar> = radius then [(fst p + dx, snd p + dy)] else [])
                    (py_range (- radius) (radius + 1))))
      (py_range (- radius) (radius + 1))))"
    by (rule ring_sorted)
next
  fix r r' :: int and a b :: tile
  assume r: "r \<in> set (py_range 1 10)" "r' \<in> set (py_range 1 10)" and lt: "r < r'"
    and a: "a \<in> set (concat (map (\<lambda>dx.
        concat (map (\<lambda>dy. if \<bar>dx\<bar> = r \<or> \<bar>dy\<bar> = r then [(fst p + dx, snd p + dy)] else [])
                    (py_range (- r) (r + 1))))
      (py_range (- r) (r + 1))))"
    and b: "b \<in> set (concat (map (\<lambda>dx.
        concat (map (\<lambda>dy. if \<bar>dx\<bar> = r' \<or> \<bar>dy\<bar> = r' then [(fst p + dx, snd p + dy)] else [])
                    (py_range (- r') (r' + 1))))
      (py_range (- r') (r' + 1))))"
  from r have r0: "0 \<le> r" "0 \<le> r'" by (auto simp: set_py_range)
  from a have "chebyshev a p = r" unfolding ring_set [OF r0(1)] by simp
  moreover from b have "chebyshev b p = r'" unfolding ring_set [OF r0(2)] by simp
  ultimately show "scanned_before p a b" using lt by (simp add: scanned_before_def)
qed

lemma scanned_before_asym: "scanned_before p u t \<Longrightarrow> \<not> scanned_before p t u"
  by (auto simp: scanned_before_def)

lemma scanned_before_total: "u \<noteq> t \<Longrightarrow> scanned_before p u t \<or> scanned_before p t u"
  by (cases u; cases t) (auto simp: scanned_before_def)

text \<open>What \<^verbatim>\<open>_find_nearest_walkable\<close> returns.\<close>

lemma find_nearest_walkable_first:
  assumes "find_nearest_walkable gm p = Some t"
  shows "first_ring_tile gm p t"
proof -
  let ?rc = "ring_candidates p"
  from assms obtain i where i: "i < length ?rc" "is_walkable gm (fst (?rc ! i)) (snd (?rc ! i))"
    "t = ?rc ! i" "\<forall>j < i. \<not> is_walkable gm (fst (?rc ! j)) (snd (?rc ! j))"
    unfolding find_nearest_walkable_def find_Some_iff by blast
  have mem: "t \<in> set ?rc" using i(1,3) by simp
  then have ring: "1 \<le> chebyshev t p" "chebyshev t p \<le> 9"
    unfolding ring_candidates_set by simp_all
  have "\<not> is_walkable gm (fst u) (snd u)" if u: "1 \<le> chebyshev u p" "scanned_before p u t" for u
  proof -
    have "chebyshev u p \<le> chebyshev t p" using u(2) by (auto simp: scanned_before_def)
    with ring u(1) have "u \<in> set ?rc" unfolding ring_candidates_set by simp
    then obtain j where j: "j < length ?rc" "u = ?rc ! j" by (auto simp: in_set_conv_nth)
    have "j < i"
    proof (rule ccontr)
      assume "\<not> j < i"
      then consider "j = i" | "i < j" by linarith
      then show False
      proof cases
        case 1
        with j i(3) u(2) show False by (auto simp: scanned_before_def)
      next
        case 2
        with ring_candidates_sorted [of p] j(1) have "scanned_before p (?rc ! i) (?rc ! j)"
          by (simp add: sorted_wrt_iff_nth_less)
        with j(2) i(3) u(2) scanned_before_asym show False by blast
      qed
    qed
    with i(4) j(2) show ?thesis by simp
  qed
  with i(2,3) ring show ?thesis by (simp add: first_ring_tile_def)
qed

lemma find_nearest_walkable_none:
  assumes "\<forall>u. 1 \<le> chebyshev u p \<and> chebyshev u p \<le> 9 \<longrightarrow> \<not> is_walkable gm (fst u) (snd u)"
  shows "find_nearest_walkable gm p = None"
  using assms unfolding find_nearest_walkable_def find_None_iff ring_candidates_set by simp

lemma first_ring_tile_unique:
  assumes "first_ring_tile gm p t" and "first_ring_tile gm p t'"
  shows "t = t'"
proof (rule ccontr)
  assume "t \<noteq> t'"
  then have "scanned_before p t t' \<or> scanned_before p t' t" by (rule scanned_before_total)
  with assms show False by (auto simp: first_ring_tile_def)
qed

lemma first_ring_tile_adjacent:
  assumes "first_ring_tile gm p t" and "chebyshev u p = 1" and "is_walkable gm (fst u) (snd u)"
  shows "chebyshev t p = 1"
proof (rule ccontr)
  assume "chebyshev t p \<noteq> 1"
  with assms(1) have "1 < chebyshev t p" by (simp add: first_ring_tile_def)
  with assms(2) have "1 \<le> chebyshev u p \<and> scanned_before p u t" by (simp add: scanned_before_def)
  with assms(1,3) show False by (auto simp: first_ring_tile_def)
qed

lemma tile_pos_inj: "tile_pos a = tile_pos b \<Longrightarrow> a = b"
  by (cases a; cases b) (simp add: tile_pos_def)

lemma find_path_with_map:
  assumes "find_path (Some gm) start goal = Some (Inr p)" and "p \<noteq> []"
  shows "\<exists>t pt. search_goal gm (tile_of goal) = Some t \<and>
           astar_loop gm t (astar_init (tile_of start)) = Some (Inr pt) \<and> p = map tile_pos pt"
proof -
  from assms have ne: "tile_of start \<noteq> tile_of goal"
    by (auto simp: find_path_def split: if_splits)
  with assms obtain t where t: "search_goal gm (tile_of goal) = Some t"
    by (auto simp: find_path_def split: option.splits)
  with assms(1) ne
  have "map_option (map_sum id (map (\<lambda>t. (real_of_int (fst t), real_of_int (snd t)))))
          (astar_loop gm t (astar_init (tile_of start))) = Some (Inr p)"
    by (simp add: find_path_def)
  then obtain r where r: "astar_loop gm t (astar_init (tile_of start)) = Some r"
    and m: "map_sum id (map (\<lambda>t. (real_of_int (fst t), real_of_int (snd t)))) r = Inr p"
    by auto
  from m obtain pt where "r = Inr pt" "p = map tile_pos pt"
    by (cases r) (auto simp: tile_pos_def)
  with t r show ?thesis by blast
qed

text \<open>
  C3, as the code has it. Without a game map \<^verbatim>\<open>find_path\<close> returns the goal as its
  only element. With a map, a path from a tile to itself is empty, and a non-empty
  returned path excludes the start tile. Its last element is the goal tile when that
  is walkable. When the goal tile is not walkable, the last element is the first
  walkable tile that the scan of the square rings of radius 1 to 9 around the goal
  meets (inner rings first, columns from left to right, rows from top to bottom); there
  is only one such tile, and it is adjacent to the goal whenever any neighbour of the
  goal is walkable. When the goal tile is not walkable and no tile on these rings is,
  the path is empty.
\<close>

theorem find_path_ends_at_first_ring_tile:
  "find_path None start goal = Some (Inr [goal]) \<and>
   (tile_of start = tile_of goal \<longrightarrow> find_path (Some gm) start goal = Some (Inr [])) \<and>
   (find_path (Some gm) start goal = Some (Inr p) \<and> p \<noteq> [] \<longrightarrow>
      (is_walkable gm (fst (tile_of goal)) (snd (tile_of goal)) \<longrightarrow>
         last p = tile_pos (tile_of goal)) \<and>
      (\<not> is_walkable gm (fst (tile_of goal)) (snd (tile_of goal)) \<longrightarrow>
         (\<exists>t. last p = tile_pos t \<and> first_ring_tile gm (tile_of goal) t \<and>
              (\<forall>t'. first_ring_tile gm (tile_of goal) t' \<longrightarrow> t' = t) \<and>
              ((\<exists>u. chebyshev u (tile_of goal) = 1 \<and> is_walkable gm (fst u) (snd u)) \<longrightarrow>
                 chebyshev t (tile_of goal) = 1))) \<and>
      tile_pos (tile_of start) \<notin> set p) \<and>
   (tile_of start \<noteq> tile_of goal \<and>
    \<not> is_walkable gm (fst (tile_of goal)) (snd (tile_of goal)) \<and>
    (\<forall>u. 1 \<le> chebyshev u (tile_of goal) \<and> chebyshev u (tile_of goal) \<le> 9 \<longrightarrow>
         \<not> is_walkable gm (fst u) (snd u)) \<longrightarrow>
      find_path (Some gm) start goal = Some (Inr []))"
proof (intro conjI impI)
  show "find_path None start goal = Some (Inr [goal])"
    by (simp add: find_path_def)
next
  assume "tile_of start = tile_of goal"
  then show "find_path (Some gm) start goal = Some (Inr [])"
    by (simp add: find_path_def)
next
  assume a: "tile_of start \<noteq> tile_of goal \<and>
    \<not> is_walkable gm (fst (tile_of goal)) (snd (tile_of goal)) \<and>
    (\<forall>u. 1 \<le> chebyshev u (tile_of goal) \<and> chebyshev u (tile_of goal) \<le> 9 \<longrightarrow>
         \<not> is_walkable gm (fst u) (snd u))"
  then have "find_nearest_walkable gm (tile_of goal) = None"
    by (intro find_nearest_walkable_none) simp
  with a show "find_path (Some gm) start goal = Some (Inr [])"
    by (simp add: find_path_def search_goal_def)
next
  assume a: "find_path (Some gm) start goal = Some (Inr p) \<and> p \<noteq> []"
  then obtain t pt where t: "search_goal gm (tile_of goal) = Some t"
    and al: "astar_loop gm t (astar_init (tile_of start)) = Some (Inr pt)"
    and p: "p = map tile_pos pt"
    using find_path_with_map by blast
  from astar_loop_result [OF al, of "tile_of start"] astar_init_inv
  have pt: "pt \<noteq> [] \<longrightarrow> last pt = t" "tile_of start \<notin> set pt"
    by simp_all
  have ne: "pt \<noteq> []" using a p by simp
  have last: "last p = tile_pos t"
    using pt(1) ne p by (simp add: last_map)
  {
    assume "is_walkable gm (fst (tile_of goal)) (snd (tile_of goal))"
    with t have "t = tile_of goal" by (simp add: search_goal_def)
    with last show "last p = tile_pos (tile_of goal)" by simp
  }
  {
    assume "\<not> is_walkable gm (fst (tile_of goal)) (snd (tile_of goal))"
    with t have "find_nearest_walkable gm (tile_of goal) = Some t" by (simp add: search_goal_def)
    then have f: "first_ring_tile gm (tile_of goal) t" by (rule find_nearest_walkable_first)
    have "\<forall>t'. first_ring_tile gm (tile_of goal) t' \<longrightarrow> t' = t"
      using f first_ring_tile_unique by blast
    moreover have "(\<exists>u. chebyshev u (tile_of goal) = 1 \<and> is_walkable gm (fst u) (snd u)) \<longrightarrow>
                 chebyshev t (tile_of goal) = 1"
      using f first_ring_tile_adjacent by blast
    ultimately show "\<exists>t. last p = tile_pos t \<and> first_ring_tile gm (tile_of goal) t \<and>
              (\<forall>t'. first_ring_tile gm (tile_of goal) t' \<longrightarrow> t' = t) \<and>
              ((\<exists>u. chebyshev u (tile_of goal) = 1 \<and> is_walkable gm (fst u) (snd u)) \<longrightarrow>
                 chebyshev t (tile_of goal) = 1)"
      using last f by blast
  }
  show "tile_pos (tile_of start) \<notin> set p"
  proof
    assume "tile_pos (tile_of start) \<in> set p"
    then obtain u where "u \<in> set pt" "tile_pos (tile_of start) = tile_pos u"
      using p by auto
    then have "tile_of start \<in> set pt"
      using tile_pos_inj [of "tile_of start" u] by simp
    with pt(2) show False by simp
  qed
qed

text \<open>
  The theorem on two strips of four tiles, from (0, 0) to the rock at (3, 0). Where
  (2, 0) is rock too, the path is the single tile (1, 0), the first walkable tile of the
  ring scan, two tiles from the goal. Where (2, 0) is grass, the path ends there, on a
  neighbour of the goal.
\<close>

theorem find_path_ends_at_first_ring_tile_witness:
  "find_path (Some strip_map) (0, 0) (3, 0) = Some (Inr [(1, 0)]) \<and>
   \<not> is_walkable strip_map (fst (tile_of (3, 0))) (snd (tile_of (3, 0))) \<and>
   (\<exists>t. last [(1, 0) :: real \<times> real] = tile_pos t \<and>
        first_ring_tile strip_map (tile_of (3, 0)) t) \<and>
   tile_pos (tile_of (0, 0)) \<notin> set [(1, 0) :: real \<times> real] \<and>
   find_path (Some ledge_map) (0, 0) (3, 0) = Some (Inr [(1, 0), (2, 0)]) \<and>
   \<not> is_walkable ledge_map (fst (tile_of (3, 0))) (snd (tile_of (3, 0))) \<and>
   (\<exists>t. last [(1, 0), (2, 0) :: real \<times> real] = tile_pos t \<and>
        first_ring_tile ledge_map (tile_of (3, 0)) t \<and> chebyshev t (tile_of (3, 0)) = 1)"
proof -
  have nw: "\<not> is_walkable strip_map (fst (tile_of (3, 0))) (snd (tile_of (3, 0)))"
    by (simp add: is_walkable_def strip_map_def tile_of_def py_int_def)
  from find_path_ends_at_first_ring_tile [of "(0, 0)" "(3, 0)" strip_map "[(1, 0)]"] strip_path nw
  have 1: "(\<exists>t. last [(1, 0) :: real \<times> real] = tile_pos t \<and>
            first_ring_tile strip_map (tile_of (3, 0)) t)"
    and 2: "tile_pos (tile_of (0, 0)) \<notin> set [(1, 0) :: real \<times> real]"
    by blast+
  have nw': "\<not> is_walkable ledge_map (fst (tile_of (3, 0))) (snd (tile_of (3, 0)))"
    by (simp add: is_walkable_def ledge_map_def tile_of_def py_int_def)
  have nb: "\<exists>u. chebyshev u (tile_of (3, 0)) = 1 \<and> is_walkable ledge_map (fst u) (snd u)"
    by (rule exI [of _ "(2, 0)"])
       (simp add: chebyshev_def is_walkable_def ledge_map_def tile_of_def py_int_def)
  from find_path_ends_at_first_ring_tile [of "(0, 0)" "(3, 0)" ledge_map "[(1, 0), (2, 0)]"]
    ledge_path nw' nb
  have 3: "\<exists>t. last [(1, 0), (2, 0) :: real \<times> real] = tile_pos t \<and>
        first_ring_tile ledge_map (tile_of (3, 0)) t \<and> chebyshev t (tile_of (3, 0)) = 1"
    by blast
  from strip_path nw 1 2 ledge_path nw' 3 show ?thesis by blast
qed

text \<open>
  The claim as stated fails in two ways. On the strip, the goal (3, 0) is rock and so
  is its only neighbour on the map; the path ends at (1, 0), two tiles from the goal,
  not adjacent to it. And without a game map, the path from (5, 5) to (5, 5) is
  \<open>[(5, 5)]\<close>: it contains the start.
\<close>

theorem find_path_adjacent_counterexample:
  "find_path (Some strip_map) (0, 0) (3, 0) = Some (Inr [(1, 0)]) \<and>
   \<not> is_walkable strip_map 3 0 \<and>
   last [(1, 0) :: real \<times> real] \<noteq> (3, 0) \<and>
   max \<bar>(1 :: int) - 3\<bar> \<bar>(0 :: int) - 0\<bar> = 2 \<and>
   find_path None (5, 5) (5, 5) = Some (Inr [(5, 5)]) \<and>
   (5, 5) \<in> set [(5, 5) :: real \<times> real]"
  using strip_path by (simp add: find_path_def is_walkable_def strip_map_def)

end
